(* ===== verification/Prelude.thy ===== *)
theory Prelude
  imports Main
begin

text \<open>
  Shared vocabulary of the development: the Go error values the model needs, the names
  of the Go maps handed between the handler and its collaborators, the collections the
  component theories fill with their evaluation rules, and generic lemmas on lists,
  options and sums that the component proofs share.
\<close>

section \<open>Named collections\<close>

named_theorems scan_defs
  "definitions of the byte-level scanners, unfolded when a concrete input is evaluated"
named_theorems handler_defs
  "definitions of the HTTP helpers, unfolded when a handler is evaluated"

section \<open>Go error values\<close>

text \<open>
  A Go \<open>error\<close> is an interface value; the model keeps one constructor per concrete
  error type that reaches the handler:
  \<^item> \<open>ErrorString\<close>: the values of \<open>errors.New\<close> and \<open>fmt.Errorf\<close> (and any error of
    the client library, which the handler only renders), carrying the message;
  \<^item> \<open>JsonSyntaxError\<close>: \<open>*json.SyntaxError\<close>, returned when the body is not JSON,
    carrying the scanner's message;
  \<^item> \<open>JsonUnmarshalTypeError\<close>: \<open>*json.UnmarshalTypeError\<close> with the JSON kind,
    the struct field (\<open>Struct.Field\<close>) when the value was meant for one, and the Go
    type it could not be stored in;
  \<^item> \<open>UrlEscapeError\<close>: \<open>url.EscapeError\<close>, a malformed percent escape.
\<close>

datatype go_error =
    ErrorString string
  | JsonSyntaxError string
  | JsonUnmarshalTypeError string "string option" string
  | UrlEscapeError string

text \<open>\<open>err.Error()\<close>. A JSON syntax error is its message (\<open>SyntaxError.Error\<close>
  returns \<open>e.msg\<close>; the offset is a separate field).\<close>

fun error_string :: "go_error \<Rightarrow> string" where
  "error_string (ErrorString m) = m"
| "error_string (JsonSyntaxError msg) = msg"
| "error_string (JsonUnmarshalTypeError v None t) =
     ''json: cannot unmarshal '' @ v @ '' into Go value of type '' @ t"
| "error_string (JsonUnmarshalTypeError v (Some fld) t) =
     ''json: cannot unmarshal '' @ v @ '' into Go struct field '' @ fld @ '' of type '' @ t"
| "error_string (UrlEscapeError s) = ''invalid URL escape '' @ s"

section \<open>Bytes\<close>

text \<open>The value of a hexadecimal digit (\<open>unhex\<close> in \<open>net/url\<close>, the digits of
  \<open>getu4\<close> in \<open>encoding/json\<close>); \<open>None\<close> when the byte is not one.\<close>

definition hex_val :: "char \<Rightarrow> nat option" where
  "hex_val c = (let n = (of_char c :: nat) in
     if 48 \<le> n \<and> n \<le> 57 then Some (n - 48)
     else if 65 \<le> n \<and> n \<le> 70 then Some (n - 55)
     else if 97 \<le> n \<and> n \<le> 102 then Some (n - 87)
     else None)"

declare hex_val_def [scan_defs]

section \<open>Go maps of decoded JSON\<close>

text \<open>
  A Go \<open>map[string]interface{}\<close> is either \<open>nil\<close> (\<open>None\<close>) or a made map
  (\<open>Some m\<close>); reading a nil map behaves like reading an empty one, but the value is
  distinguishable, and the handler hands such maps to the client library as they are.
  The element type is a parameter; the JSON theories instantiate it with JSON values.
\<close>

type_synonym 'v go_map = "(string \<rightharpoonup> 'v) option"

definition go_map_lookup :: "'v go_map \<Rightarrow> string \<Rightarrow> 'v option" where
  "go_map_lookup m k = (case m of None \<Rightarrow> None | Some f \<Rightarrow> f k)"

lemma go_map_lookup_nil [simp]: "go_map_lookup None k = None"
  by (simp add: go_map_lookup_def)

section \<open>Generic lemmas\<close>

text \<open>Suffix bounds for the scanners, which only ever drop a prefix of their input.\<close>

declare length_dropWhile_le [simp]

lemma find_Some_in_set: "find P xs = Some x \<Longrightarrow> x \<in> set xs \<and> P x"
  by (induction xs) (auto split: if_splits)

text \<open>A loop that stores key/value pairs one after the other into a map is the map
  overridden by the pairs, the last occurrence of a key winning.\<close>

lemma fold_upd_map_add: "fold (\<lambda>(k, v) m. m(k \<mapsto> v)) kvs m = m ++ map_of (rev kvs)"
  by (induction kvs arbitrary: m) auto

lemma case_sum_Inl_eq: "(case s of Inl e \<Rightarrow> Inl e | Inr x \<Rightarrow> f x) = Inr y \<Longrightarrow>
    \<exists>x. s = Inr x \<and> f x = Inr y"
  by (cases s) auto

lemma map_option_case_prod_Some:
  "map_option (\<lambda>(x, r). (g x, r)) p = Some (v, r) \<longleftrightarrow> (\<exists>x. p = Some (x, r) \<and> v = g x)"
  by (cases p) auto

end
