(* ===== verification/Json.thy ===== *)
theory Json
  imports Prelude
begin

text \<open>
  The JSON text as Go's \<open>encoding/json\<close> decodes it (\<open>decodeState.value\<close>, run once
  the scanner of \<open>JsonScan\<close> has accepted the input): the value type, the byte-level readers
  for whitespace, literals, numbers and strings (with the escape and surrogate-pair rules
  of Go's \<open>unquote\<close>), a recursive-descent parser with a fuel bound, and the facts
  that each scanner consumes input and that the fuel given by \<open>json_parse\<close> is enough.
\<close>

section \<open>JSON values\<close>

text \<open>
  A number keeps its literal text (Go decodes it into a \<open>float64\<close>; the rounding is
  not modelled); a string is its decoded byte sequence; an object keeps its members in
  input order, duplicates included.
\<close>

datatype json =
    JNull
  | JBool bool
  | JNum string
  | JStr string
  | JArr "json list"
  | JObj "(string \<times> json) list"

section \<open>Scanners\<close>

definition is_ws :: "char \<Rightarrow> bool" where
  "is_ws c \<longleftrightarrow> c = CHR '' '' \<or> c = CHR 0x09 \<or> c = CHR 0x0A \<or> c = CHR 0x0D"

definition skip_ws :: "string \<Rightarrow> string" where
  "skip_ws s = dropWhile is_ws s"

definition is_digit :: "char \<Rightarrow> bool" where
  "is_digit c \<longleftrightarrow> (48::nat) \<le> of_char c \<and> (of_char c :: nat) \<le> 57"

text \<open>\<open>getu4\<close>: four hexadecimal digits after \<open>\u\<close>.\<close>

definition hex4 :: "char \<Rightarrow> char \<Rightarrow> char \<Rightarrow> char \<Rightarrow> nat option" where
  "hex4 a b c d = (case (hex_val a, hex_val b, hex_val c, hex_val d) of
     (Some x, Some y, Some z, Some w) \<Rightarrow> Some (((x * 16 + y) * 16 + z) * 16 + w)
   | _ \<Rightarrow> None)"

text \<open>\<open>utf8.EncodeRune\<close> for a code point below \<open>0x110000\<close>.\<close>

definition utf8_encode :: "nat \<Rightarrow> string" where
  "utf8_encode n =
    (if n < 0x80 then [char_of n]
     else if n < 0x800 then [char_of (0xC0 + n div 64), char_of (0x80 + n mod 64)]
     else if n < 0x10000 then
       [char_of (0xE0 + n div 4096), char_of (0x80 + (n div 64) mod 64), char_of (0x80 + n mod 64)]
     else [char_of (0xF0 + n div 262144), char_of (0x80 + (n div 4096) mod 64),
           char_of (0x80 + (n div 64) mod 64), char_of (0x80 + n mod 64)])"

text \<open>The one-character escapes the scanner accepts after a backslash.\<close>

definition simple_escape :: "char \<Rightarrow> char option" where
  "simple_escape e =
    (if e = CHR 0x22 \<or> e = CHR 0x5C \<or> e = CHR ''/'' then Some e
     else if e = CHR ''b'' then Some (CHR 0x08)
     else if e = CHR ''f'' then Some (CHR 0x0C)
     else if e = CHR ''n'' then Some (CHR 0x0A)
     else if e = CHR ''r'' then Some (CHR 0x0D)
     else if e = CHR ''t'' then Some (CHR 0x09)
     else None)"

text \<open>\<open>utf16.IsSurrogate\<close> and \<open>utf16.DecodeRune\<close> (\<open>0xFFFD\<close> when the pair is invalid).\<close>

definition is_surrogate :: "nat \<Rightarrow> bool" where
  "is_surrogate r \<longleftrightarrow> 0xD800 \<le> r \<and> r < 0xE000"

definition utf16_decode :: "nat \<Rightarrow> nat \<Rightarrow> nat" where
  "utf16_decode r1 r2 =
    (if 0xD800 \<le> r1 \<and> r1 < 0xDC00 \<and> 0xDC00 \<le> r2 \<and> r2 < 0xE000
     then (r1 - 0xD800) * 0x400 + (r2 - 0xDC00) + 0x10000 else 0xFFFD)"

definition prepend :: "string \<Rightarrow> (string \<times> string) option \<Rightarrow> (string \<times> string) option" where
  "prepend cs r = map_option (\<lambda>(s, rest). (cs @ s, rest)) r"

text \<open>
  An escape sequence after its backslash: the decoded bytes and the rest of the input. A
  \<open>\u\<close> escape is decoded to UTF-8; a high surrogate followed by an escaped low
  surrogate is one code point; a surrogate that is not part of a valid pair becomes U+FFFD
  and the following escape is read again on its own, as in Go's \<open>unquote\<close>.
\<close>

definition scan_escape :: "string \<Rightarrow> (string \<times> string) option" where
  "scan_escape r = (case r of
     [] \<Rightarrow> None
   | e # r1 \<Rightarrow>
       (if e = CHR ''u'' then
          (case r1 of
             a # b # c # d # r2 \<Rightarrow>
               (case hex4 a b c d of
                  None \<Rightarrow> None
                | Some u \<Rightarrow>
                    (if is_surrogate u then
                       (case r2 of
                          x # y # a2 # b2 # c2 # d2 # r3 \<Rightarrow>
                            (case (if x = CHR 0x5C \<and> y = CHR ''u'' then hex4 a2 b2 c2 d2 else None) of
                               Some u2 \<Rightarrow>
                                 (if utf16_decode u u2 \<noteq> 0xFFFD
                                  then Some (utf8_encode (utf16_decode u u2), r3)
                                  else Some (utf8_encode 0xFFFD, r2))
                             | None \<Rightarrow> Some (utf8_encode 0xFFFD, r2))
                        | _ \<Rightarrow> Some (utf8_encode 0xFFFD, r2))
                     else Some (utf8_encode u, r2)))
           | _ \<Rightarrow> None)
        else map_option (\<lambda>d. ([d], r1)) (simple_escape e)))"

text \<open>
  The body of a string literal after its opening quote: the decoded bytes and the input
  after the closing quote. A control byte is an error. Bytes from \<open>0x80\<close> up are kept
  as they are (Go's replacement of invalid UTF-8 sequences by U+FFFD is not modelled).
\<close>

function scan_string :: "string \<Rightarrow> (string \<times> string) option" where
  "scan_string [] = None"
| "scan_string (c # r) =
    (if c = CHR 0x22 then Some ([], r)
     else if c = CHR 0x5C then
       (case scan_escape r of
          None \<Rightarrow> None
        | Some (cs, r1) \<Rightarrow> prepend cs (scan_string r1))
     else if of_char c < (32::nat) then None
     else prepend [c] (scan_string r))"
  by pat_completeness auto
termination
  by (relation "measure length") (auto simp: scan_escape_def split: list.splits option.splits if_splits)

text \<open>Numbers: \<open>-? (0 | [1-9][0-9]*) (. [0-9]+)? ([eE] [+-]? [0-9]+)?\<close>.\<close>

definition scan_int :: "string \<Rightarrow> (string \<times> string) option" where
  "scan_int s = (case s of
     [] \<Rightarrow> None
   | c # r \<Rightarrow> if c = CHR ''0'' then Some (''0'', r)
             else if is_digit c then Some (c # takeWhile is_digit r, dropWhile is_digit r)
             else None)"

definition scan_frac :: "string \<Rightarrow> (string \<times> string) option" where
  "scan_frac s = (case s of
     c # r \<Rightarrow> if c = CHR ''.'' then
                 (if takeWhile is_digit r = [] then None
                  else Some (c # takeWhile is_digit r, dropWhile is_digit r))
               else Some ([], s)
   | [] \<Rightarrow> Some ([], s))"

definition scan_exp :: "string \<Rightarrow> (string \<times> string) option" where
  "scan_exp s = (case s of
     c # r \<Rightarrow> if c = CHR ''e'' \<or> c = CHR ''E'' then
                 (let (sg, r1) = (case r of
                                    d # r' \<Rightarrow> if d = CHR ''+'' \<or> d = CHR ''-'' then ([d], r') else ([], r)
                                  | [] \<Rightarrow> ([], r)) in
                  if takeWhile is_digit r1 = [] then None
                  else Some (c # sg @ takeWhile is_digit r1, dropWhile is_digit r1))
               else Some ([], s)
   | [] \<Rightarrow> Some ([], s))"

definition scan_number :: "string \<Rightarrow> (string \<times> string) option" where
  "scan_number s =
    (let (sg, s1) = (case s of c # r \<Rightarrow> if c = CHR ''-'' then (''-'', r) else ([], s) | [] \<Rightarrow> ([], s)) in
     (case scan_int s1 of None \<Rightarrow> None | Some (i, s2) \<Rightarrow>
      (case scan_frac s2 of None \<Rightarrow> None | Some (f, s3) \<Rightarrow>
       (case scan_exp s3 of None \<Rightarrow> None | Some (e, s4) \<Rightarrow> Some (sg @ i @ f @ e, s4)))))"

text \<open>An object key and the colon after it.\<close>

definition scan_key :: "string \<Rightarrow> (string \<times> string) option" where
  "scan_key s = (case skip_ws s of
     c # r \<Rightarrow> if c = CHR 0x22 then
                 (case scan_string r of
                    None \<Rightarrow> None
                  | Some (k, r1) \<Rightarrow> (case skip_ws r1 of
                                      d # r2 \<Rightarrow> if d = CHR '':'' then Some (k, r2) else None
                                    | [] \<Rightarrow> None))
               else None
   | [] \<Rightarrow> None)"

declare is_ws_def [scan_defs] skip_ws_def [scan_defs] is_digit_def [scan_defs]
  hex4_def [scan_defs] utf8_encode_def [scan_defs]
  simple_escape_def [scan_defs] scan_escape_def [scan_defs] is_surrogate_def [scan_defs] utf16_decode_def [scan_defs]
  prepend_def [scan_defs] scan_int_def [scan_defs] scan_frac_def [scan_defs]
  scan_exp_def [scan_defs] scan_number_def [scan_defs] scan_key_def [scan_defs]

section \<open>The parser\<close>

text \<open>
  A value, the rest of an array after its first element, the rest of an object after its
  first member. Each call spends one unit of fuel and every chain of calls consumes input
  between two calls, so fuel one more than the input length is enough
  (\<open>parse_value_fuel_enough\<close> below).
\<close>

fun parse_value :: "nat \<Rightarrow> string \<Rightarrow> (json \<times> string) option"
and parse_array_rest :: "nat \<Rightarrow> json list \<Rightarrow> string \<Rightarrow> (json \<times> string) option"
and parse_object_rest :: "nat \<Rightarrow> (string \<times> json) list \<Rightarrow> string \<Rightarrow> (json \<times> string) option" where
  "parse_value 0 s = None"
| "parse_value (Suc n) s =
    (case skip_ws s of
       [] \<Rightarrow> None
     | c # r \<Rightarrow>
       (if c = CHR ''{'' then
          (case skip_ws r of
             d # r1 \<Rightarrow> if d = CHR ''}'' then Some (JObj [], r1)
                       else (case scan_key r of
                               None \<Rightarrow> None
                             | Some (k, r2) \<Rightarrow> (case parse_value n r2 of
                                                  None \<Rightarrow> None
                                                | Some (v, r3) \<Rightarrow> parse_object_rest n [(k, v)] r3))
           | [] \<Rightarrow> None)
        else if c = CHR ''['' then
          (case skip_ws r of
             d # r1 \<Rightarrow> if d = CHR '']'' then Some (JArr [], r1)
                       else (case parse_value n r of
                               None \<Rightarrow> None
                             | Some (v, r2) \<Rightarrow> parse_array_rest n [v] r2)
           | [] \<Rightarrow> None)
        else if c = CHR 0x22 then map_option (\<lambda>(x, r1). (JStr x, r1)) (scan_string r)
        else if take 4 (c # r) = ''true'' then Some (JBool True, drop 3 r)
        else if take 5 (c # r) = ''false'' then Some (JBool False, drop 4 r)
        else if take 4 (c # r) = ''null'' then Some (JNull, drop 3 r)
        else map_option (\<lambda>(x, r1). (JNum x, r1)) (scan_number (c # r))))"
| "parse_array_rest 0 acc s = None"
| "parse_array_rest (Suc n) acc s =
    (case skip_ws s of
       c # r \<Rightarrow>
         (if c = CHR '','' then
            (case parse_value n r of
               None \<Rightarrow> None
             | Some (v, r1) \<Rightarrow> parse_array_rest n (acc @ [v]) r1)
          else if c = CHR '']'' then Some (JArr acc, r)
          else None)
     | [] \<Rightarrow> None)"
| "parse_object_rest 0 acc s = None"
| "parse_object_rest (Suc n) acc s =
    (case skip_ws s of
       c # r \<Rightarrow>
         (if c = CHR '','' then
            (case scan_key r of
               None \<Rightarrow> None
             | Some (k, r1) \<Rightarrow> (case parse_value n r1 of
                                  None \<Rightarrow> None
                                | Some (v, r2) \<Rightarrow> parse_object_rest n (acc @ [(k, v)]) r2))
          else if c = CHR ''}'' then Some (JObj acc, r)
          else None)
     | [] \<Rightarrow> None)"

text \<open>The decode of the top-level value: one value, then only whitespace to the end of
  the input.\<close>

definition json_parse :: "string \<Rightarrow> json option" where
  "json_parse s = (case parse_value (Suc (length s)) s of
     Some (v, r) \<Rightarrow> if skip_ws r = [] then Some v else None
   | None \<Rightarrow> None)"

declare json_parse_def [scan_defs]

section \<open>Consumption and fuel\<close>

text \<open>Every scanner that succeeds returns a strict suffix of its input.\<close>

lemma scan_escape_less: "scan_escape r = Some (cs, r') \<Longrightarrow> length r' < length r"
  by (auto simp: scan_escape_def split: list.splits option.splits if_splits)

lemma prepend_Some [simp]: "prepend cs p = Some (x, r) \<longleftrightarrow> (\<exists>y. p = Some (y, r) \<and> x = cs @ y)"
  by (cases p) (auto simp: prepend_def)

lemma scan_string_less: "scan_string s = Some (x, r) \<Longrightarrow> length r < length s"
proof (induction s arbitrary: x r rule: scan_string.induct)
  case (2 c r0)
  then show ?case
    by (auto split: if_splits option.splits) (meson less_SucI less_trans scan_escape_less)
qed simp

lemma skip_ws_le [simp]: "length (skip_ws s) \<le> length s"
  by (simp add: skip_ws_def)

lemma skip_ws_Cons_less: "skip_ws s = c # r \<Longrightarrow> length r < length s"
  using skip_ws_le [of s] by simp

lemma scan_int_less: "scan_int s = Some (i, r) \<Longrightarrow> length r < length s"
  by (auto simp: scan_int_def less_Suc_eq_le split: list.splits if_splits)

lemma scan_frac_le: "scan_frac s = Some (f, r) \<Longrightarrow> length r \<le> length s"
  by (auto simp: scan_frac_def le_Suc_eq split: list.splits if_splits)

lemma scan_exp_le: "scan_exp s = Some (e, r) \<Longrightarrow> length r \<le> length s"
  by (auto simp: scan_exp_def le_Suc_eq Let_def dropWhile_eq_drop split: list.splits if_splits)

lemma scan_number_less: "scan_number s = Some (x, r) \<Longrightarrow> length r < length s"
  by (auto simp: scan_number_def split: list.splits if_splits option.splits
      dest!: scan_int_less scan_frac_le scan_exp_le)

lemma scan_key_less: "scan_key s = Some (k, r) \<Longrightarrow> length r < length s"
  by (auto simp: scan_key_def split: list.splits if_splits option.splits
      dest!: skip_ws_Cons_less scan_string_less)

lemma parse_consumes_all:
  "(\<forall>s v r. parse_value n s = Some (v, r) \<longrightarrow> length r < length s) \<and>
   (\<forall>acc s v r. parse_array_rest n acc s = Some (v, r) \<longrightarrow> length r < length s) \<and>
   (\<forall>acc s v r. parse_object_rest n acc s = Some (v, r) \<longrightarrow> length r < length s)"
proof (induction n)
  case 0
  show ?case by simp
next
  case (Suc n)
  then have IHv: "\<And>s v r. parse_value n s = Some (v, r) \<Longrightarrow> length r < length s"
    and IHa: "\<And>acc s v r. parse_array_rest n acc s = Some (v, r) \<Longrightarrow> length r < length s"
    and IHo: "\<And>acc s v r. parse_object_rest n acc s = Some (v, r) \<Longrightarrow> length r < length s"
    by blast+
  have "parse_value (Suc n) s = Some (v, r) \<Longrightarrow> length r < length s" for s v r
    by (auto split: list.splits if_splits option.splits
        dest!: skip_ws_Cons_less scan_key_less scan_string_less scan_number_less IHv IHa IHo)
  moreover have "parse_array_rest (Suc n) acc s = Some (v, r) \<Longrightarrow> length r < length s"
    for acc s v r
    by (auto split: list.splits if_splits option.splits dest!: skip_ws_Cons_less IHv IHa)
  moreover have "parse_object_rest (Suc n) acc s = Some (v, r) \<Longrightarrow> length r < length s"
    for acc s v r
    by (auto split: list.splits if_splits option.splits
        dest!: skip_ws_Cons_less scan_key_less IHv IHo)
  ultimately show ?case by blast
qed

lemmas parse_value_less = parse_consumes_all [THEN conjunct1, rule_format]
lemmas parse_array_rest_less = parse_consumes_all [THEN conjunct2, THEN conjunct1, rule_format]
lemmas parse_object_rest_less = parse_consumes_all [THEN conjunct2, THEN conjunct2, rule_format]

text \<open>
  One more unit of fuel changes nothing once the fuel exceeds the input length: each
  recursive call is made on a strictly shorter input. The three cases are proved apart
  and combined by induction on the fuel.
\<close>

lemma fuel_value_case:
  assumes IHv: "\<And>s. length s < n \<Longrightarrow> parse_value (Suc n) s = parse_value n s"
    and IHa: "\<And>acc s. length s < n \<Longrightarrow> parse_array_rest (Suc n) acc s = parse_array_rest n acc s"
    and IHo: "\<And>acc s. length s < n \<Longrightarrow> parse_object_rest (Suc n) acc s = parse_object_rest n acc s"
    and len: "length s < Suc n"
  shows "parse_value (Suc (Suc n)) s = parse_value (Suc n) s"
proof (cases "skip_ws s")
  case Nil
  then show ?thesis by simp
next
  case (Cons c r)
  with len have r: "length r < n" by (auto dest: skip_ws_Cons_less)
  have av: "parse_value n t = Some (v, t') \<Longrightarrow> length t < n \<Longrightarrow>
      parse_array_rest (Suc n) acc t' = parse_array_rest n acc t'" for t t' v acc
    using IHa parse_value_less [of n t v t'] by simp
  have ov: "parse_value n t = Some (v, t') \<Longrightarrow> length t < n \<Longrightarrow>
      parse_object_rest (Suc n) acc t' = parse_object_rest n acc t'" for t t' v acc
    using IHo parse_value_less [of n t v t'] by simp
  have kv: "scan_key r = Some (k, t) \<Longrightarrow> parse_value (Suc n) t = parse_value n t" for k t
    using IHv scan_key_less [of r k t] r by simp
  have kov: "scan_key r = Some (k, t) \<Longrightarrow> parse_value n t = Some (v, t') \<Longrightarrow>
      parse_object_rest (Suc n) acc t' = parse_object_rest n acc t'" for k t v t' acc
    using ov [of t v t'] scan_key_less [of r k t] r by simp
  have obj: "(case scan_key r of None \<Rightarrow> None
             | Some (k, r2) \<Rightarrow> (case parse_value (Suc n) r2 of None \<Rightarrow> None
                 | Some (v, r3) \<Rightarrow> parse_object_rest (Suc n) [(k, v)] r3)) =
             (case scan_key r of None \<Rightarrow> None
             | Some (k, r2) \<Rightarrow> (case parse_value n r2 of None \<Rightarrow> None
                 | Some (v, r3) \<Rightarrow> parse_object_rest n [(k, v)] r3))"
    by (auto simp: kv kov simp del: parse_value.simps parse_object_rest.simps split: option.split)
  have arr: "(case parse_value (Suc n) r of None \<Rightarrow> None
               | Some (v, r2) \<Rightarrow> parse_array_rest (Suc n) [v] r2) =
             (case parse_value n r of None \<Rightarrow> None
               | Some (v, r2) \<Rightarrow> parse_array_rest n [v] r2)"
    by (auto simp: IHv [OF r] av [OF _ r] simp del: parse_value.simps parse_array_rest.simps
        split: option.split)
  show ?thesis
    by (simp only: parse_value.simps(2) [of "Suc n" s] parse_value.simps(2) [of n s] Cons
        list.case obj arr)
qed

lemma fuel_array_case:
  assumes IHv: "\<And>s. length s < n \<Longrightarrow> parse_value (Suc n) s = parse_value n s"
    and IHa: "\<And>acc s. length s < n \<Longrightarrow> parse_array_rest (Suc n) acc s = parse_array_rest n acc s"
    and len: "length s < Suc n"
  shows "parse_array_rest (Suc (Suc n)) acc s = parse_array_rest (Suc n) acc s"
proof (cases "skip_ws s")
  case Nil
  then show ?thesis by simp
next
  case (Cons c r)
  with len have r: "length r < n" by (auto dest: skip_ws_Cons_less)
  have av: "parse_value n r = Some (v, t') \<Longrightarrow>
      parse_array_rest (Suc n) acc' t' = parse_array_rest n acc' t'" for t' v acc'
    using IHa parse_value_less [of n r v t'] r by simp
  have step: "(case parse_value (Suc n) r of None \<Rightarrow> None
               | Some (v, r1) \<Rightarrow> parse_array_rest (Suc n) (acc @ [v]) r1) =
             (case parse_value n r of None \<Rightarrow> None
               | Some (v, r1) \<Rightarrow> parse_array_rest n (acc @ [v]) r1)"
    by (auto simp: IHv [OF r] av simp del: parse_value.simps parse_array_rest.simps
        split: option.split)
  show ?thesis
    by (simp only: parse_array_rest.simps(2) [of "Suc n" acc s]
        parse_array_rest.simps(2) [of n acc s] Cons list.case step)
qed

lemma fuel_object_case:
  assumes IHv: "\<And>s. length s < n \<Longrightarrow> parse_value (Suc n) s = parse_value n s"
    and IHo: "\<And>acc s. length s < n \<Longrightarrow> parse_object_rest (Suc n) acc s = parse_object_rest n acc s"
    and len: "length s < Suc n"
  shows "parse_object_rest (Suc (Suc n)) acc s = parse_object_rest (Suc n) acc s"
proof (cases "skip_ws s")
  case Nil
  then show ?thesis by simp
next
  case (Cons c r)
  with len have r: "length r < n" by (auto dest: skip_ws_Cons_less)
  have kv: "scan_key r = Some (k, t) \<Longrightarrow> parse_value (Suc n) t = parse_value n t" for k t
    using IHv scan_key_less [of r k t] r by simp
  have kov: "scan_key r = Some (k, t) \<Longrightarrow> parse_value n t = Some (v, t') \<Longrightarrow>
      parse_object_rest (Suc n) acc' t' = parse_object_rest n acc' t'" for k t v t' acc'
    using IHo parse_value_less [of n t v t'] scan_key_less [of r k t] r by simp
  have step: "(case scan_key r of None \<Rightarrow> None
             | Some (k, r1) \<Rightarrow> (case parse_value (Suc n) r1 of None \<Rightarrow> None
                 | Some (v, r2) \<Rightarrow> parse_object_rest (Suc n) (acc @ [(k, v)]) r2)) =
             (case scan_key r of None \<Rightarrow> None
             | Some (k, r1) \<Rightarrow> (case parse_value n r1 of None \<Rightarrow> None
                 | Some (v, r2) \<Rightarrow> parse_object_rest n (acc @ [(k, v)]) r2))"
    by (auto simp: kv kov simp del: parse_value.simps parse_object_rest.simps split: option.split)
  show ?thesis
    by (simp only: parse_object_rest.simps(2) [of "Suc n" acc s]
        parse_object_rest.simps(2) [of n acc s] Cons list.case step)
qed

lemma parse_fuel_step:
  "(\<forall>s. length s < n \<longrightarrow> parse_value (Suc n) s = parse_value n s) \<and>
   (\<forall>acc s. length s < n \<longrightarrow> parse_array_rest (Suc n) acc s = parse_array_rest n acc s) \<and>
   (\<forall>acc s. length s < n \<longrightarrow> parse_object_rest (Suc n) acc s = parse_object_rest n acc s)"
proof (induction n)
  case 0
  show ?case by simp
next
  case (Suc n)
  then have IHv: "\<And>s. length s < n \<Longrightarrow> parse_value (Suc n) s = parse_value n s"
    and IHa: "\<And>acc s. length s < n \<Longrightarrow> parse_array_rest (Suc n) acc s = parse_array_rest n acc s"
    and IHo: "\<And>acc s. length s < n \<Longrightarrow> parse_object_rest (Suc n) acc s = parse_object_rest n acc s"
    by blast+
  show ?case
    using fuel_value_case [OF IHv IHa IHo] fuel_array_case [OF IHv IHa]
      fuel_object_case [OF IHv IHo] by blast
qed

text \<open>Hence the fuel \<open>Suc (length s)\<close> that \<open>json_parse\<close> gives is enough: any
  larger fuel yields the same result.\<close>

theorem parse_value_fuel_enough:
  "length s < n \<Longrightarrow> parse_value n s = parse_value (Suc (length s)) s"
proof (induction n)
  case 0
  then show ?case by simp
next
  case (Suc n)
  show ?case
  proof (cases "length s < n")
    case True
    with parse_fuel_step [of n] Suc.IH show ?thesis by simp
  next
    case False
    with Suc.prems have "n = length s" by simp
    then show ?thesis by simp
  qed
qed

end
