(* ===== verification/JsonScan.thy ===== *)
theory JsonScan
  imports Json
begin

text \<open>
  Go's JSON scanner (\<open>encoding/json/scanner.go\<close>), the state machine that
  \<open>json.Unmarshal\<close> runs over the whole input (\<open>checkValid\<close>) before it decodes anything,
  and whose error is the one \<open>Unmarshal\<close> returns for input that is not JSON. Each state
  function of the Go source is a state here; the stack of \<open>parseState\<close> values is a list,
  its top first; \<open>scan_bytes\<close> is the loop over the input and \<open>scan_wf\<close> the invariant
  of the state that every step keeps. The theory \<open>JsonValid\<close> shows that the scanner accepts exactly the inputs
  the recursive-descent parser of \<open>Json\<close> parses. Go's limit on the nesting depth
  (10000 levels, since Go 1.15) is not modelled.
\<close>

section \<open>States and messages\<close>

datatype scan_state =
    BeginValueOrEmpty | BeginValue | BeginStringOrEmpty | BeginString | EndValue | EndTop
  | InString | InStringEsc | InStringEscU | InStringEscU1 | InStringEscU12 | InStringEscU123
  | Neg | One | Zero | Dot | Dot0 | Exp | ESign | E0
  | LitT | LitTr | LitTru | LitF | LitFa | LitFal | LitFals | LitN | LitNu | LitNul

text \<open>\<open>parseObjectKey\<close>, \<open>parseObjectValue\<close>, \<open>parseArrayValue\<close>.\<close>

datatype parse_kind = ParseObjectKey | ParseObjectValue | ParseArrayValue

text \<open>A step either fails with the message of the \<open>SyntaxError\<close> or gives the next state
  and stack.\<close>

type_synonym scan_result = "string + (scan_state \<times> parse_kind list)"

definition lower_hex :: "nat \<Rightarrow> char" where
  "lower_hex n = ''0123456789abcdef'' ! n"

text \<open>\<open>strconv.Quote(string(c))\<close> without its double quotes, for a byte \<open>c\<close> read as the
  code point \<open>U+00c\<close>: backslash escaped, printable characters as they are (UTF-8 encoded
  from \<open>U+00A1\<close> on), the C escapes, \<open>\xhh\<close> for the other control bytes and \<open>\u00hh\<close>
  for the non-printable ones from \<open>U+0080\<close>.\<close>

definition quote_body :: "char \<Rightarrow> string" where
  "quote_body c =
    (let n = (of_char c :: nat) in
     if c = CHR 0x5C then [CHR 0x5C, CHR 0x5C]
     else if 0x20 \<le> n \<and> n \<le> 0x7E then [c]
     else if 0xA1 \<le> n \<and> n \<noteq> 0xAD then utf8_encode n
     else if n = 7 then [CHR 0x5C, CHR ''a'']
     else if n = 8 then [CHR 0x5C, CHR ''b'']
     else if n = 0x0C then [CHR 0x5C, CHR ''f'']
     else if n = 0x0A then [CHR 0x5C, CHR ''n'']
     else if n = 0x0D then [CHR 0x5C, CHR ''r'']
     else if n = 9 then [CHR 0x5C, CHR ''t'']
     else if n = 0x0B then [CHR 0x5C, CHR ''v'']
     else if n < 0x20 \<or> n = 0x7F then [CHR 0x5C, CHR ''x'', lower_hex (n div 16), lower_hex (n mod 16)]
     else [CHR 0x5C, CHR ''u'', CHR ''0'', CHR ''0'', lower_hex (n div 16), lower_hex (n mod 16)])"

text \<open>\<open>quoteChar\<close>: the byte between single quotes.\<close>

definition quote_char :: "char \<Rightarrow> string" where
  "quote_char c =
    (if c = CHR 0x27 then [CHR 0x27, CHR 0x5C, CHR 0x27, CHR 0x27]
     else if c = CHR 0x22 then [CHR 0x27, CHR 0x22, CHR 0x27]
     else CHR 0x27 # quote_body c @ [CHR 0x27])"

text \<open>\<open>s.error(c, context)\<close>.\<close>

definition invalid :: "char \<Rightarrow> string \<Rightarrow> scan_result" where
  "invalid c ctx = Inl (''invalid character '' @ quote_char c @ '' '' @ ctx)"

definition expecting :: "string \<Rightarrow> char \<Rightarrow> string" where
  "expecting lit e = ''in literal '' @ lit @ '' (expecting '' @ [CHR 0x27, e, CHR 0x27, CHR '')'']"

section \<open>The state functions\<close>

text \<open>\<open>stateEndTop\<close>: only space may follow the top-level value.\<close>

definition end_top :: "parse_kind list \<Rightarrow> char \<Rightarrow> scan_result" where
  "end_top K c = (if is_ws c then Inr (EndTop, K) else invalid c ''after top-level value'')"

text \<open>\<open>popParseState\<close>, given the stack without its top.\<close>

definition pop_to :: "parse_kind list \<Rightarrow> scan_result" where
  "pop_to K = (if K = [] then Inr (EndTop, []) else Inr (EndValue, K))"

text \<open>\<open>stateEndValue\<close>: after a value, what the enclosing object or array allows.\<close>

definition end_value :: "parse_kind list \<Rightarrow> char \<Rightarrow> scan_result" where
  "end_value K c =
    (case K of
       [] \<Rightarrow> end_top [] c
     | ps # K' \<Rightarrow>
         if is_ws c then Inr (EndValue, K)
         else (case ps of
                 ParseObjectKey \<Rightarrow>
                   if c = CHR '':'' then Inr (BeginValue, ParseObjectValue # K')
                   else invalid c ''after object key''
               | ParseObjectValue \<Rightarrow>
                   if c = CHR '','' then Inr (BeginString, ParseObjectKey # K')
                   else if c = CHR ''}'' then pop_to K'
                   else invalid c ''after object key:value pair''
               | ParseArrayValue \<Rightarrow>
                   if c = CHR '','' then Inr (BeginValue, K)
                   else if c = CHR '']'' then pop_to K'
                   else invalid c ''after array element''))"

text \<open>\<open>stateBeginValue\<close>.\<close>

definition begin_value :: "parse_kind list \<Rightarrow> char \<Rightarrow> scan_result" where
  "begin_value K c =
    (if is_ws c then Inr (BeginValue, K)
     else if c = CHR ''{'' then Inr (BeginStringOrEmpty, ParseObjectKey # K)
     else if c = CHR ''['' then Inr (BeginValueOrEmpty, ParseArrayValue # K)
     else if c = CHR 0x22 then Inr (InString, K)
     else if c = CHR ''-'' then Inr (Neg, K)
     else if c = CHR ''0'' then Inr (Zero, K)
     else if c = CHR ''t'' then Inr (LitT, K)
     else if c = CHR ''f'' then Inr (LitF, K)
     else if c = CHR ''n'' then Inr (LitN, K)
     else if is_digit c then Inr (One, K)
     else invalid c ''looking for beginning of value'')"

text \<open>\<open>stateBeginString\<close>: an object key must start.\<close>

definition begin_string :: "parse_kind list \<Rightarrow> char \<Rightarrow> scan_result" where
  "begin_string K c =
    (if is_ws c then Inr (BeginString, K)
     else if c = CHR 0x22 then Inr (InString, K)
     else invalid c ''looking for beginning of object key string'')"

text \<open>\<open>state0\<close>: after the integer part.\<close>

definition state_zero :: "parse_kind list \<Rightarrow> char \<Rightarrow> scan_result" where
  "state_zero K c =
    (if c = CHR ''.'' then Inr (Dot, K)
     else if c = CHR ''e'' \<or> c = CHR ''E'' then Inr (Exp, K)
     else end_value K c)"

text \<open>\<open>stateESign\<close>: the exponent needs a digit.\<close>

definition state_esign :: "parse_kind list \<Rightarrow> char \<Rightarrow> scan_result" where
  "state_esign K c = (if is_digit c then Inr (E0, K) else invalid c ''in exponent of numeric literal'')"

definition lit_step :: "parse_kind list \<Rightarrow> char \<Rightarrow> char \<Rightarrow> scan_state \<Rightarrow> string \<Rightarrow> scan_result" where
  "lit_step K c e next lit = (if c = e then Inr (next, K) else invalid c (expecting lit e))"

definition hex_step :: "parse_kind list \<Rightarrow> char \<Rightarrow> scan_state \<Rightarrow> scan_result" where
  "hex_step K c next =
    (if hex_val c \<noteq> None then Inr (next, K)
     else invalid c (''in '' @ [CHR 0x5C] @ ''u hexadecimal character escape''))"

text \<open>One step of the scanner: \<open>s.step(s, c)\<close>.\<close>

fun scan_step :: "scan_state \<Rightarrow> parse_kind list \<Rightarrow> char \<Rightarrow> scan_result" where
  "scan_step BeginValueOrEmpty K c =
     (if is_ws c then Inr (BeginValueOrEmpty, K)
      else if c = CHR '']'' then end_value K c
      else begin_value K c)"
| "scan_step BeginValue K c = begin_value K c"
| "scan_step BeginStringOrEmpty K c =
     (if is_ws c then Inr (BeginStringOrEmpty, K)
      else if c = CHR ''}'' then end_value (ParseObjectValue # tl K) c
      else begin_string K c)"
| "scan_step BeginString K c = begin_string K c"
| "scan_step EndValue K c = end_value K c"
| "scan_step EndTop K c = end_top K c"
| "scan_step InString K c =
     (if c = CHR 0x22 then Inr (EndValue, K)
      else if c = CHR 0x5C then Inr (InStringEsc, K)
      else if of_char c < (32::nat) then invalid c ''in string literal''
      else Inr (InString, K))"
| "scan_step InStringEsc K c =
     (if c \<in> set [CHR ''b'', CHR ''f'', CHR ''n'', CHR ''r'', CHR ''t'', CHR 0x5C, CHR ''/'', CHR 0x22]
      then Inr (InString, K)
      else if c = CHR ''u'' then Inr (InStringEscU, K)
      else invalid c ''in string escape code'')"
| "scan_step InStringEscU K c = hex_step K c InStringEscU1"
| "scan_step InStringEscU1 K c = hex_step K c InStringEscU12"
| "scan_step InStringEscU12 K c = hex_step K c InStringEscU123"
| "scan_step InStringEscU123 K c = hex_step K c InString"
| "scan_step Neg K c =
     (if c = CHR ''0'' then Inr (Zero, K)
      else if is_digit c then Inr (One, K)
      else invalid c ''in numeric literal'')"
| "scan_step One K c = (if is_digit c then Inr (One, K) else state_zero K c)"
| "scan_step Zero K c = state_zero K c"
| "scan_step Dot K c =
     (if is_digit c then Inr (Dot0, K) else invalid c ''after decimal point in numeric literal'')"
| "scan_step Dot0 K c =
     (if is_digit c then Inr (Dot0, K)
      else if c = CHR ''e'' \<or> c = CHR ''E'' then Inr (Exp, K)
      else end_value K c)"
| "scan_step Exp K c = (if c = CHR ''+'' \<or> c = CHR ''-'' then Inr (ESign, K) else state_esign K c)"
| "scan_step ESign K c = state_esign K c"
| "scan_step E0 K c = (if is_digit c then Inr (E0, K) else end_value K c)"
| "scan_step LitT K c = lit_step K c (CHR ''r'') LitTr ''true''"
| "scan_step LitTr K c = lit_step K c (CHR ''u'') LitTru ''true''"
| "scan_step LitTru K c = lit_step K c (CHR ''e'') EndValue ''true''"
| "scan_step LitF K c = lit_step K c (CHR ''a'') LitFa ''false''"
| "scan_step LitFa K c = lit_step K c (CHR ''l'') LitFal ''false''"
| "scan_step LitFal K c = lit_step K c (CHR ''s'') LitFals ''false''"
| "scan_step LitFals K c = lit_step K c (CHR ''e'') EndValue ''false''"
| "scan_step LitN K c = lit_step K c (CHR ''u'') LitNu ''null''"
| "scan_step LitNu K c = lit_step K c (CHR ''l'') LitNul ''null''"
| "scan_step LitNul K c = lit_step K c (CHR ''l'') EndValue ''null''"

section \<open>Running the scanner\<close>

text \<open>\<open>s.eof()\<close>: accepted if the top-level value has ended; otherwise one more step on a
  space, which may end it (a number), fail with its own message, or leave the value
  unfinished.\<close>

definition scan_eof :: "scan_state \<Rightarrow> parse_kind list \<Rightarrow> string option" where
  "scan_eof st K =
    (if st = EndTop then None
     else (case scan_step st K (CHR '' '') of
             Inl msg \<Rightarrow> Some msg
           | Inr (st', K') \<Rightarrow> if st' = EndTop then None else Some ''unexpected end of JSON input''))"

text \<open>The loop of \<open>checkValid\<close>, \<open>for _, c := range data\<close>: each byte is stepped, and
  the loop returns at the first error.\<close>

fun scan_bytes :: "scan_state \<Rightarrow> parse_kind list \<Rightarrow> string \<Rightarrow> scan_result" where
  "scan_bytes st K [] = Inr (st, K)"
| "scan_bytes st K (c # cs) =
     (case scan_step st K c of Inl msg \<Rightarrow> Inl msg | Inr (st', K') \<Rightarrow> scan_bytes st' K' cs)"

text \<open>\<open>checkValid(data, scan)\<close> after \<open>scan.reset()\<close>: the loop from \<open>stateBeginValue\<close>
  with an empty stack, then \<open>scan.eof()\<close>; \<open>None\<close> when the input is valid, the message
  of the first error otherwise.\<close>

definition check_valid :: "string \<Rightarrow> string option" where
  "check_valid s =
    (case scan_bytes BeginValue [] s of Inl msg \<Rightarrow> Some msg | Inr (st, K) \<Rightarrow> scan_eof st K)"

text \<open>The loop and \<open>eof\<close> from any state, as one recursion; the proofs run the scanner
  through a value embedded in a larger input with it.\<close>

fun scan_run :: "scan_state \<Rightarrow> parse_kind list \<Rightarrow> string \<Rightarrow> string option" where
  "scan_run st K [] = scan_eof st K"
| "scan_run st K (c # cs) =
     (case scan_step st K c of Inl msg \<Rightarrow> Some msg | Inr (st', K') \<Rightarrow> scan_run st' K' cs)"

text \<open>The invariant of the scanner's state: a stack is present wherever Go's state
  functions index its top without checking (\<open>stateBeginStringOrEmpty\<close> writes
  \<open>s.parseState[n-1]\<close>), and the top-level value has ended only with an empty stack.\<close>

definition scan_wf :: "scan_state \<Rightarrow> parse_kind list \<Rightarrow> bool" where
  "scan_wf st K \<longleftrightarrow>
     (st = BeginStringOrEmpty \<longrightarrow> K \<noteq> [] \<and> hd K = ParseObjectKey) \<and> (st = EndTop \<longrightarrow> K = [])"

section \<open>Runs of the scanner\<close>

lemma scan_bytes_append:
  "scan_bytes st K (p @ t) =
    (case scan_bytes st K p of Inl msg \<Rightarrow> Inl msg | Inr (st', K') \<Rightarrow> scan_bytes st' K' t)"
  by (induction p arbitrary: st K) (auto split: sum.split prod.split)

lemma scan_run_bytes:
  "scan_run st K s =
    (case scan_bytes st K s of Inl msg \<Rightarrow> Some msg | Inr (st', K') \<Rightarrow> scan_eof st' K')"
  by (induction s arbitrary: st K) (auto split: sum.split prod.split)

lemma check_valid_run: "check_valid s = scan_run BeginValue [] s"
  by (simp add: check_valid_def scan_run_bytes)

lemma scan_run_append:
  "scan_run st K (p @ t) =
    (case scan_bytes st K p of Inl msg \<Rightarrow> Some msg | Inr (st', K') \<Rightarrow> scan_run st' K' t)"
  by (induction p arbitrary: st K) (auto split: sum.split prod.split)

lemmas scan_step_defs = end_top_def pop_to_def end_value_def begin_value_def begin_string_def
  state_zero_def state_esign_def lit_step_def hex_step_def invalid_def expecting_def
  quote_char_def quote_body_def lower_hex_def scan_eof_def check_valid_run

text \<open>A run of characters that leave the scanner where it is.\<close>

lemma scan_run_stay:
  "\<forall>c\<in>set ds. scan_step st K c = Inr (st, K) \<Longrightarrow> scan_run st K (ds @ t) = scan_run st K t"
  by (induction ds) auto

text \<open>Two states that agree on the next character (on a space at the end) lead to the same
  result.\<close>

lemma scan_run_same_next:
  assumes "st \<noteq> EndTop" "st' \<noteq> EndTop"
    and "\<And>c cs. t = c # cs \<Longrightarrow> scan_step st K c = scan_step st' K c"
    and "t = [] \<Longrightarrow> scan_step st K (CHR '' '') = scan_step st' K (CHR '' '')"
  shows "scan_run st K t = scan_run st' K t"
  using assms by (cases t) (auto simp: scan_eof_def)

lemma is_ws_space [simp]: "is_ws (CHR '' '')"
  by (simp add: is_ws_def)

lemma scan_run_EndTop_EndValue: "scan_run EndTop [] t = scan_run EndValue [] t"
  by (cases t) (simp_all add: scan_eof_def end_value_def end_top_def)

lemma scan_run_dropWhile:
  assumes "\<And>c. P c \<Longrightarrow> scan_step st K c = Inr (st, K)"
  shows "scan_run st K s = scan_run st K (dropWhile P s)"
proof -
  have "scan_run st K (takeWhile P s @ dropWhile P s) = scan_run st K (dropWhile P s)"
    by (rule scan_run_stay) (auto dest: set_takeWhileD assms)
  then show ?thesis by simp
qed

lemma scan_run_skip_ws:
  assumes "\<And>c. is_ws c \<Longrightarrow> scan_step st K c = Inr (st, K)"
  shows "scan_run st K s = scan_run st K (skip_ws s)"
  unfolding skip_ws_def using assms by (rule scan_run_dropWhile)

lemma scan_run_EndValue_skip_ws: "scan_run EndValue K s = scan_run EndValue K (skip_ws s)"
proof (cases K)
  case Nil
  have "scan_run EndTop [] s = scan_run EndTop [] (skip_ws s)"
    by (rule scan_run_skip_ws) (simp add: end_top_def)
  with Nil show ?thesis by (simp add: scan_run_EndTop_EndValue)
next
  case (Cons k K')
  then show ?thesis by (intro scan_run_skip_ws) (simp add: end_value_def)
qed


lemma skip_ws_Cons_not_ws: "skip_ws s = c # r \<Longrightarrow> \<not> is_ws c"
  unfolding skip_ws_def by (metis dropWhile_eq_Cons_conv)

lemma dropWhile_Cons_not: "dropWhile P s = c # r \<Longrightarrow> \<not> P c"
  by (metis dropWhile_eq_Cons_conv)

text \<open>Input of whitespace only (the empty body included) is not a JSON value.\<close>

lemma check_valid_blank:
  assumes "\<forall>c\<in>set s. is_ws c"
  shows "check_valid s = Some ''unexpected end of JSON input''"
proof -
  have "check_valid s = scan_run BeginValue [] (skip_ws s)"
    unfolding check_valid_run by (rule scan_run_skip_ws) (simp add: begin_value_def)
  also from assms have "skip_ws s = []" by (simp add: skip_ws_def)
  finally show ?thesis by (simp add: scan_eof_def begin_value_def)
qed


text \<open>Every message of the scanner is one of the two forms of \<open>scanner.go\<close>: an invalid
  byte (\<open>s.error\<close>) or the end of input (\<open>eof\<close>).\<close>

lemma scan_step_error: "scan_step st K c = Inl msg \<Longrightarrow> \<exists>rest. msg = ''invalid character '' @ rest"
  by (cases st) (auto simp: scan_step_defs split: if_splits list.splits parse_kind.splits)

lemma scan_run_error:
  "scan_run st K s = Some msg \<Longrightarrow>
   (\<exists>rest. msg = ''invalid character '' @ rest) \<or> msg = ''unexpected end of JSON input''"
proof (induction s arbitrary: st K)
  case Nil
  then show ?case
    by (auto simp: scan_eof_def dest: scan_step_error split: sum.splits prod.splits if_splits)
next
  case (Cons c s)
  then show ?case by (auto dest: scan_step_error split: sum.splits prod.splits)
qed


text \<open>The invariant holds at the start and every step keeps it, so no run of
  \<open>checkValid\<close> reaches \<open>stateBeginStringOrEmpty\<close> with an empty stack: the index
  \<open>n-1\<close> there is always in range.\<close>

lemma scan_wf_start [simp]: "scan_wf BeginValue []"
  by (simp add: scan_wf_def)

lemma end_value_wf:
  "end_value K c = Inr (st', K') \<Longrightarrow> scan_wf st' K'"
  by (auto simp: end_value_def end_top_def pop_to_def scan_wf_def invalid_def
      split: list.splits parse_kind.splits if_splits)

lemma scan_step_wf:
  assumes "scan_wf st K" and "scan_step st K c = Inr (st', K')"
  shows "scan_wf st' K'"
  using assms
  by (cases st)
    (auto simp: scan_wf_def begin_value_def begin_string_def state_zero_def state_esign_def
      lit_step_def hex_step_def end_top_def invalid_def split: if_splits dest: end_value_wf)

lemma scan_bytes_wf:
  "scan_wf st K \<Longrightarrow> scan_bytes st K s = Inr (st', K') \<Longrightarrow> scan_wf st' K'"
proof (induction s arbitrary: st K)
  case (Cons c s)
  then show ?case by (auto split: sum.splits prod.splits dest: scan_step_wf)
qed simp


text \<open>Hence on every input, at every byte, \<open>checkValid\<close>'s state satisfies the invariant.\<close>

lemma check_valid_wf: "scan_bytes BeginValue [] s = Inr (st, K) \<Longrightarrow> scan_wf st K"
  by (rule scan_bytes_wf [OF scan_wf_start])

end
