(* ===== verification/JsonValid.thy ===== *)
theory JsonValid
  imports JsonScan
begin

text \<open>
  The scanner of \<open>JsonScan\<close> and the parser of \<open>Json\<close> agree: \<open>checkValid\<close> accepts
  an input exactly when the parser reads one value from it followed by whitespace
  (\<open>check_valid_iff_json_parse\<close>). The proof follows the parser: a value the parser
  reads takes the scanner from \<open>stateBeginValue\<close> to \<open>stateEndValue\<close> over the same
  bytes, whatever the stack of enclosing objects and arrays (\<open>parse_value_scan\<close>, by
  induction on the fuel, with one lemma per kind of token); and where the parser fails
  with enough fuel, the scanner reports an error on the same bytes
  (\<open>parse_value_fail_scan\<close>).
\<close>

text \<open>The digits of an exponent after its optional sign.\<close>

abbreviation exp_digits :: "string \<Rightarrow> string" where
  "exp_digits r \<equiv> (case r of d # r' \<Rightarrow> if d = CHR ''+'' \<or> d = CHR ''-'' then r' else r | [] \<Rightarrow> r)"

section \<open>Strings\<close>

lemma hex4_Some: "hex4 a b c d = Some u \<Longrightarrow> scan_run InStringEscU K (a # b # c # d # t) = scan_run InString K t"
  by (auto simp: hex4_def hex_step_def split: option.splits)

lemma hex4_None: "hex4 a b c d = None \<Longrightarrow> scan_run InStringEscU K (a # b # c # d # t) \<noteq> None"
  by (auto simp: hex4_def hex_step_def invalid_def split: option.splits)

lemma hex_short: "length t < 4 \<Longrightarrow> scan_run InStringEscU K t \<noteq> None"
proof -
  have h: "hex_val (CHR '' '') = None" by (simp add: hex_val_def)
  assume "length t < 4"
  then have "length t = 0 \<or> length t = 1 \<or> length t = 2 \<or> length t = 3" by arith
  then show ?thesis
    by (auto simp: length_Suc_conv numeral_eq_Suc scan_eof_def hex_step_def invalid_def h)
qed

lemma scan_escape_u_run:
  assumes "hex4 a b c d = Some u"
    and "(if is_surrogate u then
            (case r2 of
               x # y # a2 # b2 # c2 # d2 # r3 \<Rightarrow>
                 (case (if x = CHR 0x5C \<and> y = CHR ''u'' then hex4 a2 b2 c2 d2 else None) of
                    Some u2 \<Rightarrow>
                      (if utf16_decode u u2 \<noteq> 0xFFFD
                       then Some (utf8_encode (utf16_decode u u2), r3)
                       else Some (utf8_encode 0xFFFD, r2))
                  | None \<Rightarrow> Some (utf8_encode 0xFFFD, r2))
             | _ \<Rightarrow> Some (utf8_encode 0xFFFD, r2))
          else Some (utf8_encode u, r2)) = Some (cs, r1)"
  shows "scan_run InStringEsc K (CHR ''u'' # a # b # c # d # r2) = scan_run InString K r1"
proof -
  have "scan_run InStringEsc K (CHR ''u'' # a # b # c # d # r2) = scan_run InString K r2"
    using hex4_Some [OF assms(1)] by simp
  moreover have "r1 = r2 \<or> (\<exists>a2 b2 c2 d2 u2. r2 = CHR 0x5C # CHR ''u'' # a2 # b2 # c2 # d2 # r1 \<and>
      hex4 a2 b2 c2 d2 = Some u2)"
    using assms(2) by (auto split: if_splits list.splits option.splits)
  ultimately show ?thesis
    by (auto dest: hex4_Some [where t = r1 and K = K])
qed

lemma scan_escape_run:
  assumes "scan_escape r = Some (cs, r1)"
  shows "scan_run InStringEsc K r = scan_run InString K r1"
proof (cases r)
  case Nil
  with assms show ?thesis by (simp add: scan_escape_def)
next
  case (Cons e r')
  show ?thesis
  proof (cases "e = CHR ''u''")
    case True
    with assms Cons obtain a b c d r2 u where "r' = a # b # c # d # r2" and hex: "hex4 a b c d = Some u"
      by (auto simp: scan_escape_def split: list.splits option.splits)
    with True Cons have r: "r = CHR ''u'' # a # b # c # d # r2" by simp
    show ?thesis unfolding r
      by (rule scan_escape_u_run [OF hex]) (insert assms, simp add: r scan_escape_def hex)
  next
    case False
    with assms Cons show ?thesis
      by (auto simp: scan_escape_def simple_escape_def)
  qed
qed

lemma scan_escape_fail:
  assumes "scan_escape r = None"
  shows "scan_run InStringEsc K r \<noteq> None"
proof (cases r)
  case Nil
  then show ?thesis by (simp add: scan_eof_def invalid_def)
next
  case (Cons e r')
  show ?thesis
  proof (cases "e = CHR ''u''")
    case True
    show ?thesis
    proof (cases "length r' < 4")
      case True
      with \<open>e = CHR ''u''\<close> Cons show ?thesis by (simp add: hex_short)
    next
      case False
      then have "Suc (Suc (Suc (Suc 0))) \<le> length r'" by simp
      then obtain a b c d r2 where r': "r' = a # b # c # d # r2"
        by (auto simp: Suc_le_length_iff)
      with assms Cons True have "hex4 a b c d = None"
        by (auto simp: scan_escape_def split: option.splits if_splits list.splits)
      with r' True Cons have "scan_run InStringEsc K r = scan_run InStringEscU K (a # b # c # d # r2)"
        by simp
      with hex4_None [OF \<open>hex4 a b c d = None\<close>, of K r2] show ?thesis
        by (simp del: scan_run.simps)
    qed
  next
    case False
    with assms Cons show ?thesis by (auto simp: scan_escape_def simple_escape_def invalid_def)
  qed
qed

lemma scan_string_run:
  "scan_string s = Some (x, r) \<Longrightarrow> scan_run InString K s = scan_run EndValue K r"
proof (induction s arbitrary: x r rule: scan_string.induct)
  case (2 c r0)
  then show ?case
    by (auto simp: scan_escape_run invalid_def split: if_splits option.splits)
qed simp

lemma scan_string_fail:
  "scan_string s = None \<Longrightarrow> scan_run InString K s \<noteq> None"
proof (induction s rule: scan_string.induct)
  case 1
  then show ?case by (simp add: scan_eof_def)
next
  case (2 c r0)
  show ?case
  proof (cases "c = CHR 0x5C")
    case True
    show ?thesis
    proof (cases "scan_escape r0")
      case None
      with True show ?thesis by (simp add: scan_escape_fail)
    next
      case (Some p)
      with True 2 show ?thesis
        by (cases p) (simp add: scan_escape_run prepend_def)
    qed
  next
    case False
    with 2 show ?thesis by (auto simp: invalid_def prepend_def split: if_splits)
  qed
qed

section \<open>Object keys\<close>

lemma scan_key_run:
  assumes "scan_key s = Some (k, r)"
  shows "scan_run BeginString (ParseObjectKey # K) s = scan_run BeginValue (ParseObjectValue # K) r"
proof -
  from assms obtain r0 r1 where ws: "skip_ws s = CHR 0x22 # r0" and str: "scan_string r0 = Some (k, r1)"
    and col: "skip_ws r1 = CHR '':'' # r"
    by (auto simp: scan_key_def split: list.splits if_splits option.splits)
  have "scan_run BeginString (ParseObjectKey # K) s = scan_run BeginString (ParseObjectKey # K) (skip_ws s)"
    by (rule scan_run_skip_ws) (simp add: begin_string_def)
  also have "\<dots> = scan_run EndValue (ParseObjectKey # K) r1"
    using ws scan_string_run [OF str] by (simp add: begin_string_def is_ws_def)
  also have "\<dots> = scan_run EndValue (ParseObjectKey # K) (skip_ws r1)"
    by (rule scan_run_EndValue_skip_ws)
  also have "\<dots> = scan_run BeginValue (ParseObjectValue # K) r"
    using col by (simp add: end_value_def is_ws_def)
  finally show ?thesis .
qed

lemma scan_key_fail:
  assumes "scan_key s = None"
  shows "scan_run BeginString (ParseObjectKey # K) s \<noteq> None"
proof -
  have ws: "scan_run BeginString (ParseObjectKey # K) s = scan_run BeginString (ParseObjectKey # K) (skip_ws s)"
    by (rule scan_run_skip_ws) (simp add: begin_string_def)
  show ?thesis
  proof (cases "skip_ws s")
    case Nil
    with ws show ?thesis by (simp add: scan_eof_def begin_string_def)
  next
    case (Cons c r0)
    note nws = skip_ws_Cons_not_ws [OF Cons]
    show ?thesis
    proof (cases "c = CHR 0x22")
      case False
      with ws Cons nws show ?thesis by (simp add: begin_string_def invalid_def)
    next
      case True
      show ?thesis
      proof (cases "scan_string r0")
        case None
        with ws Cons True show ?thesis by (simp add: begin_string_def is_ws_def scan_string_fail)
      next
        case (Some p)
        obtain k r1 where p: "p = (k, r1)" by (cases p)
        have run: "scan_run BeginString (ParseObjectKey # K) s = scan_run EndValue (ParseObjectKey # K) (skip_ws r1)"
          using ws Cons True scan_string_run [of r0 k r1] Some p scan_run_EndValue_skip_ws
          by (simp add: begin_string_def is_ws_def)
        show ?thesis
        proof (cases "skip_ws r1")
          case Nil
          with run show ?thesis by (simp add: scan_eof_def end_value_def)
        next
          case (Cons d r2)
          with assms \<open>skip_ws s = c # r0\<close> True Some p have "d \<noteq> CHR '':''"
            by (simp add: scan_key_def split: if_splits)
          with run Cons skip_ws_Cons_not_ws [OF Cons] show ?thesis
            by (simp add: end_value_def invalid_def)
        qed
      qed
    qed
  qed
qed

section \<open>Literals\<close>

lemma list_cases4:
  obtains "r = []" | a where "r = [a]" | a b where "r = [a, b]" | a b c where "r = [a, b, c]"
    | a b c d t where "r = a # b # c # d # t"
  by (metis list.exhaust)

lemma lit_true_run: "take 3 r = ''rue'' \<Longrightarrow> scan_run LitT K r = scan_run EndValue K (drop 3 r)"
  by (cases r rule: list_cases4) (auto simp: lit_step_def)

lemma lit_false_run: "take 4 r = ''alse'' \<Longrightarrow> scan_run LitF K r = scan_run EndValue K (drop 4 r)"
  by (cases r rule: list_cases4) (auto simp: lit_step_def)

lemma lit_null_run: "take 3 r = ''ull'' \<Longrightarrow> scan_run LitN K r = scan_run EndValue K (drop 3 r)"
  by (cases r rule: list_cases4) (auto simp: lit_step_def)

lemma lit_true_fail: "take 3 r \<noteq> ''rue'' \<Longrightarrow> scan_run LitT K r \<noteq> None"
  by (cases r rule: list_cases4) (auto simp: lit_step_def invalid_def scan_eof_def)

lemma lit_false_fail: "take 4 r \<noteq> ''alse'' \<Longrightarrow> scan_run LitF K r \<noteq> None"
  by (cases r rule: list_cases4) (auto simp: lit_step_def invalid_def scan_eof_def)

lemma lit_null_fail: "take 3 r \<noteq> ''ull'' \<Longrightarrow> scan_run LitN K r \<noteq> None"
  by (cases r rule: list_cases4) (auto simp: lit_step_def invalid_def scan_eof_def)

section \<open>Numbers\<close>

lemma is_digit_not_ws: "is_digit c \<Longrightarrow> \<not> is_ws c"
  by (auto simp: is_digit_def is_ws_def)

lemma not_digit_space [simp]: "\<not> is_digit (CHR '' '')"
  by (simp add: is_digit_def)

lemma digit_run:
  assumes "\<And>c. is_digit c \<Longrightarrow> scan_step st K c = Inr (st, K)"
  shows "scan_run st K s = scan_run st K (dropWhile is_digit s)"
  using assms by (rule scan_run_dropWhile)

text \<open>After the digits of an exponent the number has ended.\<close>

lemma esign_run:
  assumes "takeWhile is_digit r \<noteq> []"
  shows "scan_run ESign K r = scan_run EndValue K (dropWhile is_digit r)"
proof -
  from assms obtain d r' where r: "r = d # r'" and d: "is_digit d" by (cases r) (auto split: if_splits)
  have "scan_run ESign K r = scan_run E0 K (dropWhile is_digit r')"
    using r d digit_run [of E0 K r'] by (simp add: state_esign_def)
  also have "\<dots> = scan_run EndValue K (dropWhile is_digit r')"
    by (rule scan_run_same_next) (auto dest: dropWhile_Cons_not)
  finally show ?thesis using r d by simp
qed

lemma esign_fail: "takeWhile is_digit r = [] \<Longrightarrow> scan_run ESign K r \<noteq> None"
  by (cases r) (auto simp: scan_eof_def state_esign_def invalid_def split: if_splits)

text \<open>A state that, on the next character, starts an exponent or ends the number the way
  \<open>stateEndValue\<close> does: \<open>state0\<close> when no dot follows, \<open>stateDot0\<close> when no digit follows.\<close>

lemma exp_run:
  "scan_run Exp K r = scan_run ESign K (case r of d # r' \<Rightarrow> if d = CHR ''+'' \<or> d = CHR ''-'' then r' else r | [] \<Rightarrow> r)"
proof (cases r)
  case Nil
  then show ?thesis by (simp add: scan_eof_def state_esign_def)
next
  case (Cons d r')
  then show ?thesis by (simp add: state_esign_def)
qed

lemma scan_exp_plain: "\<not> (t \<noteq> [] \<and> (hd t = CHR ''e'' \<or> hd t = CHR ''E'')) \<Longrightarrow> scan_exp t = Some ([], t)"
  by (cases t) (auto simp: scan_exp_def)

lemma scan_exp_E_Some:
  "scan_exp (c # r) = Some (e, t') \<Longrightarrow> c = CHR ''e'' \<or> c = CHR ''E'' \<Longrightarrow>
   takeWhile is_digit (exp_digits r) \<noteq> [] \<and> t' = dropWhile is_digit (exp_digits r)"
  by (cases r) (auto simp: scan_exp_def split: if_splits)

lemma scan_exp_E_None:
  "scan_exp (c # r) = None \<Longrightarrow> (c = CHR ''e'' \<or> c = CHR ''E'') \<and> takeWhile is_digit (exp_digits r) = []"
  by (cases r) (auto simp: scan_exp_def split: if_splits)

lemma exp_entry:
  assumes st: "st \<noteq> EndTop"
    and nxt: "\<And>c cs. t = c # cs \<Longrightarrow> scan_step st K c =
           (if c = CHR ''e'' \<or> c = CHR ''E'' then Inr (Exp, K) else end_value K c)"
    and eof: "t = [] \<Longrightarrow> scan_step st K (CHR '' '') = end_value K (CHR '' '')"
  shows exp_entry_run: "scan_exp t = Some (e, t') \<Longrightarrow> scan_run st K t = scan_run EndValue K t'"
    and exp_entry_fail: "scan_exp t = None \<Longrightarrow> scan_run st K t \<noteq> None"
proof -
  have expo: "scan_run st K t = scan_run ESign K (exp_digits r)"
    if "t = c # r" "c = CHR ''e'' \<or> c = CHR ''E''" for c r
    using that nxt [of c r] exp_run [of K r] by simp
  show "scan_exp t = Some (e, t') \<Longrightarrow> scan_run st K t = scan_run EndValue K t'"
  proof (cases "t \<noteq> [] \<and> (hd t = CHR ''e'' \<or> hd t = CHR ''E'')")
    case True
    then obtain c r where t: "t = c # r" "c = CHR ''e'' \<or> c = CHR ''E''" by (cases t) auto
    assume "scan_exp t = Some (e, t')"
    with t scan_exp_E_Some [of c r e t'] expo [OF t] esign_run show ?thesis by simp
  next
    case False
    assume "scan_exp t = Some (e, t')"
    with scan_exp_plain [OF False] have "t' = t" by simp
    then show ?thesis
      using False st nxt eof by (simp only:) (rule scan_run_same_next; auto)
  qed
  show "scan_exp t = None \<Longrightarrow> scan_run st K t \<noteq> None"
  proof (cases t)
    case (Cons c r)
    assume "scan_exp t = None"
    with Cons scan_exp_E_None [of c r] have "c = CHR ''e'' \<or> c = CHR ''E''"
      "takeWhile is_digit (exp_digits r) = []" by auto
    with Cons expo esign_fail show ?thesis by simp
  qed (simp add: scan_exp_def)
qed

text \<open>The integer part, from \<open>stateNeg\<close> (or \<open>stateBeginValue\<close> on a digit) to
  \<open>state0\<close>: \<open>state1\<close> on a non-digit is \<open>state0\<close>.\<close>

lemma int_run:
  assumes "scan_int s = Some (i, s2)"
  shows "scan_run Neg K s = scan_run Zero K s2"
proof -
  from assms obtain c r where s: "s = c # r" and d: "is_digit c" and
    cases: "(c = CHR ''0'' \<and> s2 = r) \<or> (c \<noteq> CHR ''0'' \<and> s2 = dropWhile is_digit r)"
    by (auto simp: scan_int_def is_digit_def split: list.splits if_splits)
  show ?thesis
  proof (cases "c = CHR ''0''")
    case True
    with s cases show ?thesis by simp
  next
    case False
    with s d have "scan_run Neg K s = scan_run One K (dropWhile is_digit r)"
      using digit_run [of One K r] by simp
    also have "\<dots> = scan_run Zero K (dropWhile is_digit r)"
      by (rule scan_run_same_next) (auto dest: dropWhile_Cons_not)
    finally show ?thesis using False cases by simp
  qed
qed

lemma int_fail: "scan_int s = None \<Longrightarrow> scan_run Neg K s \<noteq> None"
  by (cases s) (auto simp: scan_int_def scan_eof_def invalid_def is_digit_def split: if_splits)

lemma digit_not_special:
  assumes "is_digit c"
  shows "c \<noteq> CHR ''{''" "c \<noteq> CHR ''[''" "c \<noteq> CHR 0x22" "c \<noteq> CHR ''-''" "c \<noteq> CHR ''t''"
    "c \<noteq> CHR ''f''" "c \<noteq> CHR ''n''" "c \<noteq> CHR ''.''" "c \<noteq> CHR ''e''" "c \<noteq> CHR ''E''"
    "c \<noteq> CHR ''+''"
  using assms by (auto simp: is_digit_def)

lemma begin_value_digit: "is_digit c \<Longrightarrow> scan_step BeginValue K c = scan_step Neg K c"
  by (simp add: begin_value_def digit_not_special is_digit_not_ws)

text \<open>The fraction and the exponent, from \<open>state0\<close>.\<close>

lemma frac_exp:
  assumes "scan_frac s2 = Some (f, s3)"
  shows frac_exp_run: "scan_exp s3 = Some (e, s4) \<Longrightarrow> scan_run Zero K s2 = scan_run EndValue K s4"
    and frac_exp_fail: "scan_exp s3 = None \<Longrightarrow> scan_run Zero K s2 \<noteq> None"
proof -
  have "\<exists>st. scan_run Zero K s2 = scan_run st K s3 \<and> st \<noteq> EndTop \<and>
      (\<forall>c cs. s3 = c # cs \<longrightarrow> scan_step st K c =
           (if c = CHR ''e'' \<or> c = CHR ''E'' then Inr (Exp, K) else end_value K c)) \<and>
      (s3 = [] \<longrightarrow> scan_step st K (CHR '' '') = end_value K (CHR '' ''))"
  proof (cases "s2 \<noteq> [] \<and> hd s2 = CHR ''.''")
    case True
    with assms obtain d r where s2: "s2 = CHR ''.'' # d # r" and d: "is_digit d"
      and s3: "s3 = dropWhile is_digit r"
      by (cases s2; cases "tl s2") (auto simp: scan_frac_def split: if_splits)
    have "scan_run Zero K s2 = scan_run Dot0 K s3"
      using s2 d s3 digit_run [of Dot0 K r] by (simp add: state_zero_def)
    then show ?thesis using s3
      by (intro exI [of _ Dot0]) (auto simp: state_zero_def dest: dropWhile_Cons_not)
  next
    case False
    with assms have "s3 = s2" by (cases s2) (auto simp: scan_frac_def)
    then show ?thesis using False
      by (intro exI [of _ Zero]) (auto simp: state_zero_def)
  qed
  then obtain st where "scan_run Zero K s2 = scan_run st K s3" "st \<noteq> EndTop"
    "\<And>c cs. s3 = c # cs \<Longrightarrow> scan_step st K c =
           (if c = CHR ''e'' \<or> c = CHR ''E'' then Inr (Exp, K) else end_value K c)"
    "s3 = [] \<Longrightarrow> scan_step st K (CHR '' '') = end_value K (CHR '' '')"
    by blast
  then show "scan_exp s3 = Some (e, s4) \<Longrightarrow> scan_run Zero K s2 = scan_run EndValue K s4"
    and "scan_exp s3 = None \<Longrightarrow> scan_run Zero K s2 \<noteq> None"
    using exp_entry_run [of st s3 K e s4] exp_entry_fail [of st s3 K] by simp_all
qed

lemma frac_fail: "scan_frac s2 = None \<Longrightarrow> scan_run Zero K s2 \<noteq> None"
  by (cases s2; cases "tl s2")
    (auto simp: scan_frac_def state_zero_def scan_eof_def invalid_def split: if_splits)

lemma number_tail:
  fixes sg s1 :: string
  defines "res \<equiv> (case scan_int s1 of None \<Rightarrow> None | Some (i, s2) \<Rightarrow>
      (case scan_frac s2 of None \<Rightarrow> None | Some (f, s3) \<Rightarrow>
       (case scan_exp s3 of None \<Rightarrow> None | Some (e, s4) \<Rightarrow> Some (sg @ i @ f @ e, s4))))"
  shows number_tail_run: "res = Some (x, r) \<Longrightarrow> scan_run Neg K s1 = scan_run EndValue K r"
    and number_tail_fail: "res = None \<Longrightarrow> scan_run Neg K s1 \<noteq> None"
proof -
  show "res = Some (x, r) \<Longrightarrow> scan_run Neg K s1 = scan_run EndValue K r"
    unfolding res_def
    by (auto simp: int_run frac_exp_run split: option.splits)
  show "res = None \<Longrightarrow> scan_run Neg K s1 \<noteq> None"
  proof (cases "scan_int s1")
    case None
    then show ?thesis by (rule int_fail)
  next
    case (Some p)
    obtain i s2 where p: "p = (i, s2)" by (cases p)
    with Some have run: "scan_run Neg K s1 = scan_run Zero K s2" by (simp add: int_run)
    assume "res = None"
    with Some p have "scan_frac s2 = None \<or> (\<exists>f s3. scan_frac s2 = Some (f, s3) \<and> scan_exp s3 = None)"
      by (auto simp: res_def split: option.splits)
    with run show ?thesis by (auto dest: frac_fail frac_exp_fail)
  qed
qed

lemma number_run:
  assumes "scan_number s = Some (x, r)"
  shows "scan_run BeginValue K s = scan_run EndValue K r"
proof (cases "s \<noteq> [] \<and> hd s = CHR ''-''")
  case True
  then obtain s1 where s: "s = CHR ''-'' # s1" by (cases s) auto
  with assms show ?thesis
    by (auto simp: scan_number_def begin_value_def is_ws_def intro: number_tail_run)
next
  case False
  with assms have "(case scan_int s of None \<Rightarrow> None | Some (i, s2) \<Rightarrow>
      (case scan_frac s2 of None \<Rightarrow> None | Some (f, s3) \<Rightarrow>
       (case scan_exp s3 of None \<Rightarrow> None | Some (e, s4) \<Rightarrow> Some ([] @ i @ f @ e, s4)))) = Some (x, r)"
    by (cases s) (auto simp: scan_number_def)
  moreover from this obtain c t where s: "s = c # t" and "is_digit c"
    by (cases s) (auto simp: scan_int_def is_digit_def split: if_splits)
  ultimately show ?thesis
    using number_tail_run [of "[]" s x r K] begin_value_digit [of c K] by simp
qed

lemma number_fail:
  assumes "scan_number s = None" "s = c # t" "c = CHR ''-'' \<or> is_digit c"
  shows "scan_run BeginValue K s \<noteq> None"
proof (cases "c = CHR ''-''")
  case True
  with assms number_tail_fail [of "''-''" t K] show ?thesis
    by (simp add: scan_number_def begin_value_def is_ws_def)
next
  case False
  with assms have d: "is_digit c" by simp
  with False assms have "(case scan_int s of None \<Rightarrow> None | Some (i, s2) \<Rightarrow>
      (case scan_frac s2 of None \<Rightarrow> None | Some (f, s3) \<Rightarrow>
       (case scan_exp s3 of None \<Rightarrow> None | Some (e, s4) \<Rightarrow> Some ([] @ i @ f @ e, s4)))) = None"
    by (simp add: scan_number_def)
  with number_tail_fail [of "[]" s K] assms(2) begin_value_digit [OF d, of K] show ?thesis by simp
qed

section \<open>Values\<close>

text \<open>The last branch of \<open>parse_value\<close>: a literal or a number.\<close>

lemma scalar:
  fixes c :: char and r :: string
  defines "res \<equiv> (if take 4 (c # r) = ''true'' then Some (JBool True, drop 3 r)
        else if take 5 (c # r) = ''false'' then Some (JBool False, drop 4 r)
        else if take 4 (c # r) = ''null'' then Some (JNull, drop 3 r)
        else map_option (\<lambda>(x, r1). (JNum x, r1)) (scan_number (c # r)))"
  assumes c: "\<not> is_ws c" "c \<noteq> CHR ''{''" "c \<noteq> CHR ''[''" "c \<noteq> CHR 0x22"
  shows scalar_run: "res = Some (v, r') \<Longrightarrow> scan_run BeginValue K (c # r) = scan_run EndValue K r'"
    and scalar_fail: "res = None \<Longrightarrow> scan_run BeginValue K (c # r) \<noteq> None"
proof -
  have t: "scan_run BeginValue K (CHR ''t'' # r) = scan_run LitT K r"
    and f: "scan_run BeginValue K (CHR ''f'' # r) = scan_run LitF K r"
    and n: "scan_run BeginValue K (CHR ''n'' # r) = scan_run LitN K r"
    by (simp_all add: begin_value_def is_ws_def)
  have num: "scan_number (c # r) = None" if "c = CHR ''t'' \<or> c = CHR ''f'' \<or> c = CHR ''n''"
    using that by (auto simp: scan_number_def scan_int_def is_digit_def)
  show "res = Some (v, r') \<Longrightarrow> scan_run BeginValue K (c # r) = scan_run EndValue K r'"
    unfolding res_def
    by (auto simp: t f n lit_true_run lit_false_run lit_null_run number_run simp del: scan_run.simps
        split: if_splits)
  show "res = None \<Longrightarrow> scan_run BeginValue K (c # r) \<noteq> None"
  proof -
    assume none: "res = None"
    consider "c = CHR ''t''" | "c = CHR ''f''" | "c = CHR ''n''" | "c = CHR ''-'' \<or> is_digit c"
      | "c \<noteq> CHR ''t''" "c \<noteq> CHR ''f''" "c \<noteq> CHR ''n''" "c \<noteq> CHR ''-''" "\<not> is_digit c"
      by blast
    then show ?thesis
    proof cases
      case 1
      with none t lit_true_fail show ?thesis by (simp add: res_def split: if_splits)
    next
      case 2
      with none f lit_false_fail show ?thesis by (simp add: res_def split: if_splits)
    next
      case 3
      with none n lit_null_fail show ?thesis by (simp add: res_def split: if_splits)
    next
      case 4
      with none have "scan_number (c # r) = None" by (auto simp: res_def split: if_splits)
      with 4 show ?thesis using number_fail [of "c # r" c r K] by simp
    next
      case 5
      moreover from 5 have "c \<noteq> CHR ''0''" by (auto simp: is_digit_def)
      ultimately show ?thesis using c by (simp add: begin_value_def invalid_def)
    qed
  qed
qed

lemma begin_value_skip_ws: "scan_run BeginValue K s = scan_run BeginValue K (skip_ws s)"
  by (rule scan_run_skip_ws) (simp add: begin_value_def)

lemma open_object:
  "scan_run BeginValue K (CHR ''{'' # r) = scan_run BeginStringOrEmpty (ParseObjectKey # K) (skip_ws r)"
  by (simp add: begin_value_def is_ws_def) (rule scan_run_skip_ws, simp)

lemma open_array:
  "scan_run BeginValue K (CHR ''['' # r) = scan_run BeginValueOrEmpty (ParseArrayValue # K) (skip_ws r)"
  by (simp add: begin_value_def is_ws_def) (rule scan_run_skip_ws, simp)

lemma close_object:
  "scan_run BeginStringOrEmpty (ParseObjectKey # K) (CHR ''}'' # r) = scan_run EndValue K r"
  by (simp add: end_value_def is_ws_def pop_to_def scan_run_EndTop_EndValue)

lemma close_array:
  "scan_run BeginValueOrEmpty (ParseArrayValue # K) (CHR '']'' # r) = scan_run EndValue K r"
  by (simp add: end_value_def is_ws_def pop_to_def scan_run_EndTop_EndValue)

lemma first_key:
  assumes "skip_ws r = d # r1" "d \<noteq> CHR ''}''"
  shows "scan_run BeginStringOrEmpty K (skip_ws r) = scan_run BeginString K r"
proof -
  have "scan_run BeginString K r = scan_run BeginString K (skip_ws r)"
    by (rule scan_run_skip_ws) (simp add: begin_string_def)
  with assms skip_ws_Cons_not_ws [OF assms(1)] show ?thesis by (simp add: begin_string_def)
qed

lemma first_element:
  assumes "skip_ws r = d # r1" "d \<noteq> CHR '']''"
  shows "scan_run BeginValueOrEmpty K (skip_ws r) = scan_run BeginValue K r"
  using assms skip_ws_Cons_not_ws [OF assms(1)] begin_value_skip_ws [of K r]
  by (simp add: begin_value_def)

lemma object_comma:
  "scan_run EndValue (ParseObjectValue # K) (CHR '','' # r) = scan_run BeginString (ParseObjectKey # K) r"
  by (simp add: end_value_def is_ws_def)

lemma array_comma:
  "scan_run EndValue (ParseArrayValue # K) (CHR '','' # r) = scan_run BeginValue (ParseArrayValue # K) r"
  by (simp add: end_value_def is_ws_def)

lemma object_end:
  "scan_run EndValue (ParseObjectValue # K) (CHR ''}'' # r) = scan_run EndValue K r"
  by (simp add: end_value_def is_ws_def pop_to_def scan_run_EndTop_EndValue)

lemma array_end:
  "scan_run EndValue (ParseArrayValue # K) (CHR '']'' # r) = scan_run EndValue K r"
  by (simp add: end_value_def is_ws_def pop_to_def scan_run_EndTop_EndValue)

lemmas scan_structure = open_object open_array close_object close_array object_comma array_comma
  object_end array_end

section \<open>The parser's values are the scanner's\<close>

lemma run_value_case:
  assumes IHv: "\<And>s v r K. parse_value n s = Some (v, r) \<Longrightarrow> scan_run BeginValue K s = scan_run EndValue K r"
    and IHa: "\<And>acc s v r K. parse_array_rest n acc s = Some (v, r) \<Longrightarrow>
              scan_run EndValue (ParseArrayValue # K) s = scan_run EndValue K r"
    and IHo: "\<And>acc s v r K. parse_object_rest n acc s = Some (v, r) \<Longrightarrow>
              scan_run EndValue (ParseObjectValue # K) s = scan_run EndValue K r"
    and p: "parse_value (Suc n) s = Some (v, r)"
  shows "scan_run BeginValue K s = scan_run EndValue K r"
proof -
  from p obtain c r0 where ws: "skip_ws s = c # r0" by (cases "skip_ws s") auto
  note nws = skip_ws_Cons_not_ws [OF ws]
  have start: "scan_run BeginValue K s = scan_run BeginValue K (c # r0)"
    using begin_value_skip_ws [of K s] ws by simp
  consider "c = CHR ''{''" | "c = CHR ''[''" | "c = CHR 0x22"
    | "c \<noteq> CHR ''{''" "c \<noteq> CHR ''[''" "c \<noteq> CHR 0x22" by blast
  then show ?thesis
  proof cases
    case 1
    with p ws obtain d r1 where ws1: "skip_ws r0 = d # r1" by (auto split: list.splits)
    show ?thesis
    proof (cases "d = CHR ''}''")
      case True
      with p ws ws1 1 have "r = r1" by simp
      with start 1 ws1 True show ?thesis by (simp add: scan_structure del: scan_run.simps)
    next
      case False
      with p ws ws1 1 obtain k r2 v1 r3 where key: "scan_key r0 = Some (k, r2)"
        and v1: "parse_value n r2 = Some (v1, r3)" and rest: "parse_object_rest n [(k, v1)] r3 = Some (v, r)"
        by (auto split: option.splits)
      from start 1 first_key [OF ws1 False] scan_key_run [OF key] IHv [OF v1] IHo [OF rest]
      show ?thesis by (simp add: scan_structure del: scan_run.simps)
    qed
  next
    case 2
    with p ws obtain d r1 where ws1: "skip_ws r0 = d # r1" by (auto split: list.splits)
    show ?thesis
    proof (cases "d = CHR '']''")
      case True
      with p ws ws1 2 have "r = r1" by simp
      with start 2 ws1 True show ?thesis by (simp add: scan_structure del: scan_run.simps)
    next
      case False
      with p ws ws1 2 obtain v1 r2 where v1: "parse_value n r0 = Some (v1, r2)"
        and rest: "parse_array_rest n [v1] r2 = Some (v, r)"
        by (auto split: option.splits)
      from start 2 first_element [OF ws1 False] IHv [OF v1] IHa [OF rest]
      show ?thesis by (simp add: scan_structure del: scan_run.simps)
    qed
  next
    case 3
    with p ws obtain x where "scan_string r0 = Some (x, r)" by auto
    with start 3 show ?thesis by (simp add: begin_value_def is_ws_def scan_string_run)
  next
    case 4
    with p ws have "(if take 4 (c # r0) = ''true'' then Some (JBool True, drop 3 r0)
        else if take 5 (c # r0) = ''false'' then Some (JBool False, drop 4 r0)
        else if take 4 (c # r0) = ''null'' then Some (JNull, drop 3 r0)
        else map_option (\<lambda>(x, r1). (JNum x, r1)) (scan_number (c # r0))) = Some (v, r)"
      by simp
    with start scalar_run [OF nws 4] show ?thesis by simp
  qed
qed

lemma run_array_case:
  assumes IHv: "\<And>s v r K. parse_value n s = Some (v, r) \<Longrightarrow> scan_run BeginValue K s = scan_run EndValue K r"
    and IHa: "\<And>acc s v r K. parse_array_rest n acc s = Some (v, r) \<Longrightarrow>
              scan_run EndValue (ParseArrayValue # K) s = scan_run EndValue K r"
    and p: "parse_array_rest (Suc n) acc s = Some (v, r)"
  shows "scan_run EndValue (ParseArrayValue # K) s = scan_run EndValue K r"
proof -
  from p obtain c r0 where ws: "skip_ws s = c # r0" by (cases "skip_ws s") auto
  have start: "scan_run EndValue (ParseArrayValue # K) s = scan_run EndValue (ParseArrayValue # K) (c # r0)"
    using scan_run_EndValue_skip_ws [of "ParseArrayValue # K" s] ws by simp
  show ?thesis
  proof (cases "c = CHR '',''")
    case True
    with p ws obtain v1 r1 where v1: "parse_value n r0 = Some (v1, r1)"
      and rest: "parse_array_rest n (acc @ [v1]) r1 = Some (v, r)"
      by (auto split: option.splits)
    from start True IHv [OF v1] IHa [OF rest] show ?thesis
      by (simp add: scan_structure del: scan_run.simps)
  next
    case False
    with p ws have "c = CHR '']''" "r = r0" by (auto split: if_splits)
    with start show ?thesis by (simp add: scan_structure del: scan_run.simps)
  qed
qed

lemma run_object_case:
  assumes IHv: "\<And>s v r K. parse_value n s = Some (v, r) \<Longrightarrow> scan_run BeginValue K s = scan_run EndValue K r"
    and IHo: "\<And>acc s v r K. parse_object_rest n acc s = Some (v, r) \<Longrightarrow>
              scan_run EndValue (ParseObjectValue # K) s = scan_run EndValue K r"
    and p: "parse_object_rest (Suc n) acc s = Some (v, r)"
  shows "scan_run EndValue (ParseObjectValue # K) s = scan_run EndValue K r"
proof -
  from p obtain c r0 where ws: "skip_ws s = c # r0" by (cases "skip_ws s") auto
  have start: "scan_run EndValue (ParseObjectValue # K) s = scan_run EndValue (ParseObjectValue # K) (c # r0)"
    using scan_run_EndValue_skip_ws [of "ParseObjectValue # K" s] ws by simp
  show ?thesis
  proof (cases "c = CHR '',''")
    case True
    with p ws obtain k r1 v1 r2 where key: "scan_key r0 = Some (k, r1)"
      and v1: "parse_value n r1 = Some (v1, r2)"
      and rest: "parse_object_rest n (acc @ [(k, v1)]) r2 = Some (v, r)"
      by (auto split: option.splits)
    from start True scan_key_run [OF key] IHv [OF v1] IHo [OF rest] show ?thesis
      by (simp add: scan_structure del: scan_run.simps)
  next
    case False
    with p ws have "c = CHR ''}''" "r = r0" by (auto split: if_splits)
    with start show ?thesis by (simp add: scan_structure del: scan_run.simps)
  qed
qed

lemma parse_scan_run:
  "(\<forall>s v r K. parse_value n s = Some (v, r) \<longrightarrow> scan_run BeginValue K s = scan_run EndValue K r) \<and>
   (\<forall>acc s v r K. parse_array_rest n acc s = Some (v, r) \<longrightarrow>
      scan_run EndValue (ParseArrayValue # K) s = scan_run EndValue K r) \<and>
   (\<forall>acc s v r K. parse_object_rest n acc s = Some (v, r) \<longrightarrow>
      scan_run EndValue (ParseObjectValue # K) s = scan_run EndValue K r)"
proof (induction n)
  case 0
  show ?case by simp
next
  case (Suc n)
  have v: "scan_run BeginValue K s = scan_run EndValue K r"
    if "parse_value (Suc n) s = Some (v, r)" for s v r K
    by (rule run_value_case [where n = n]) (insert Suc.IH that, blast)+
  have a: "scan_run EndValue (ParseArrayValue # K) s = scan_run EndValue K r"
    if "parse_array_rest (Suc n) acc s = Some (v, r)" for acc s v r K
    by (rule run_array_case [where n = n]) (insert Suc.IH that, blast)+
  have o: "scan_run EndValue (ParseObjectValue # K) s = scan_run EndValue K r"
    if "parse_object_rest (Suc n) acc s = Some (v, r)" for acc s v r K
    by (rule run_object_case [where n = n]) (insert Suc.IH that, blast)+
  show ?case using v a o by blast
qed

lemmas parse_value_scan = parse_scan_run [THEN conjunct1, rule_format]

section \<open>What the parser rejects, the scanner rejects\<close>

lemma fail_value_case:
  assumes IHv: "\<And>s K. length s < n \<Longrightarrow> parse_value n s = None \<Longrightarrow> scan_run BeginValue K s \<noteq> None"
    and IHa: "\<And>acc s K. length s < n \<Longrightarrow> parse_array_rest n acc s = None \<Longrightarrow>
              scan_run EndValue (ParseArrayValue # K) s \<noteq> None"
    and IHo: "\<And>acc s K. length s < n \<Longrightarrow> parse_object_rest n acc s = None \<Longrightarrow>
              scan_run EndValue (ParseObjectValue # K) s \<noteq> None"
    and len: "length s < Suc n" and p: "parse_value (Suc n) s = None"
  shows "scan_run BeginValue K s \<noteq> None"
proof (cases "skip_ws s")
  case Nil
  with begin_value_skip_ws [of K s] show ?thesis by (simp add: scan_eof_def begin_value_def)
next
  case (Cons c r0)
  note ws = Cons
  note nws = skip_ws_Cons_not_ws [OF ws]
  from len skip_ws_Cons_less [OF ws] have len0: "length r0 < n" by simp
  have start: "scan_run BeginValue K s = scan_run BeginValue K (c # r0)"
    using begin_value_skip_ws [of K s] ws by simp
  consider "c = CHR ''{''" | "c = CHR ''[''" | "c = CHR 0x22"
    | "c \<noteq> CHR ''{''" "c \<noteq> CHR ''[''" "c \<noteq> CHR 0x22" by blast
  then show ?thesis
  proof cases
    case 1
    show ?thesis
    proof (cases "skip_ws r0")
      case Nil
      with start 1 show ?thesis by (simp add: open_object del: scan_run.simps) (simp add: scan_eof_def)
    next
      case (Cons d r1)
      with p ws 1 have d: "d \<noteq> CHR ''}''" by (auto split: if_splits)
      have run: "scan_run BeginValue K s = scan_run BeginString (ParseObjectKey # K) r0"
        using start 1 first_key [OF Cons d] by (simp add: open_object del: scan_run.simps)
      show ?thesis
      proof (cases "scan_key r0")
        case None
        with run scan_key_fail show ?thesis by simp
      next
        case (Some kr)
        obtain k r2 where kr: "kr = (k, r2)" by (cases kr)
        with Some have key: "scan_key r0 = Some (k, r2)" by simp
        note run2 = run [unfolded scan_key_run [OF key]]
        from scan_key_less [OF key] len0 have len2: "length r2 < n" by simp
        show ?thesis
        proof (cases "parse_value n r2")
          case None
          with run2 IHv [OF len2] show ?thesis by simp
        next
          case (Some vr)
          obtain v1 r3 where vr: "vr = (v1, r3)" by (cases vr)
          with Some have v1: "parse_value n r2 = Some (v1, r3)" by simp
          with p ws 1 Cons d key have rest: "parse_object_rest n [(k, v1)] r3 = None" by simp
          from parse_value_less [OF v1] len2 have "length r3 < n" by simp
          with run2 parse_value_scan [OF v1] IHo [OF _ rest] show ?thesis by simp
        qed
      qed
    qed
  next
    case 2
    show ?thesis
    proof (cases "skip_ws r0")
      case Nil
      with start 2 show ?thesis by (simp add: open_array del: scan_run.simps) (simp add: scan_eof_def)
    next
      case (Cons d r1)
      with p ws 2 have d: "d \<noteq> CHR '']''" by (auto split: if_splits)
      have run: "scan_run BeginValue K s = scan_run BeginValue (ParseArrayValue # K) r0"
        using start 2 first_element [OF Cons d] by (simp add: open_array del: scan_run.simps)
      show ?thesis
      proof (cases "parse_value n r0")
        case None
        with run IHv [OF len0] show ?thesis by simp
      next
        case (Some vr)
        obtain v1 r2 where vr: "vr = (v1, r2)" by (cases vr)
        with Some have v1: "parse_value n r0 = Some (v1, r2)" by simp
        with p ws 2 Cons d have rest: "parse_array_rest n [v1] r2 = None" by simp
        from parse_value_less [OF v1] len0 have "length r2 < n" by simp
        with run parse_value_scan [OF v1] IHa [OF _ rest] show ?thesis by simp
      qed
    qed
  next
    case 3
    with p ws have "scan_string r0 = None" by simp
    with start 3 scan_string_fail show ?thesis by (simp add: begin_value_def is_ws_def)
  next
    case 4
    with p ws have "(if take 4 (c # r0) = ''true'' then Some (JBool True, drop 3 r0)
        else if take 5 (c # r0) = ''false'' then Some (JBool False, drop 4 r0)
        else if take 4 (c # r0) = ''null'' then Some (JNull, drop 3 r0)
        else map_option (\<lambda>(x, r1). (JNum x, r1)) (scan_number (c # r0))) = None"
      by simp
    with start scalar_fail [OF nws 4] show ?thesis by simp
  qed
qed

lemma fail_array_case:
  assumes IHv: "\<And>s K. length s < n \<Longrightarrow> parse_value n s = None \<Longrightarrow> scan_run BeginValue K s \<noteq> None"
    and IHa: "\<And>acc s K. length s < n \<Longrightarrow> parse_array_rest n acc s = None \<Longrightarrow>
              scan_run EndValue (ParseArrayValue # K) s \<noteq> None"
    and len: "length s < Suc n" and p: "parse_array_rest (Suc n) acc s = None"
  shows "scan_run EndValue (ParseArrayValue # K) s \<noteq> None"
proof (cases "skip_ws s")
  case Nil
  with scan_run_EndValue_skip_ws [of "ParseArrayValue # K" s] show ?thesis
    by (simp add: scan_eof_def end_value_def)
next
  case (Cons c r0)
  note ws = Cons
  from len skip_ws_Cons_less [OF ws] have len0: "length r0 < n" by simp
  have start: "scan_run EndValue (ParseArrayValue # K) s = scan_run EndValue (ParseArrayValue # K) (c # r0)"
    using scan_run_EndValue_skip_ws [of "ParseArrayValue # K" s] ws by simp
  show ?thesis
  proof (cases "c = CHR '',''")
    case True
    then have run: "scan_run EndValue (ParseArrayValue # K) s = scan_run BeginValue (ParseArrayValue # K) r0"
      using start by (simp add: array_comma del: scan_run.simps)
    show ?thesis
    proof (cases "parse_value n r0")
      case None
      with run IHv [OF len0] show ?thesis by simp
    next
      case (Some vr)
      obtain v1 r1 where vr: "vr = (v1, r1)" by (cases vr)
      with Some have v1: "parse_value n r0 = Some (v1, r1)" by simp
      with p ws True have rest: "parse_array_rest n (acc @ [v1]) r1 = None" by simp
      from parse_value_less [OF v1] len0 have "length r1 < n" by simp
      with run parse_value_scan [OF v1] IHa [OF _ rest] show ?thesis by simp
    qed
  next
    case False
    with p ws have "c \<noteq> CHR '']''" by (auto split: if_splits)
    with False start skip_ws_Cons_not_ws [OF ws] show ?thesis by (simp add: end_value_def invalid_def)
  qed
qed

lemma fail_object_case:
  assumes IHv: "\<And>s K. length s < n \<Longrightarrow> parse_value n s = None \<Longrightarrow> scan_run BeginValue K s \<noteq> None"
    and IHo: "\<And>acc s K. length s < n \<Longrightarrow> parse_object_rest n acc s = None \<Longrightarrow>
              scan_run EndValue (ParseObjectValue # K) s \<noteq> None"
    and len: "length s < Suc n" and p: "parse_object_rest (Suc n) acc s = None"
  shows "scan_run EndValue (ParseObjectValue # K) s \<noteq> None"
proof (cases "skip_ws s")
  case Nil
  with scan_run_EndValue_skip_ws [of "ParseObjectValue # K" s] show ?thesis
    by (simp add: scan_eof_def end_value_def)
next
  case (Cons c r0)
  note ws = Cons
  from len skip_ws_Cons_less [OF ws] have len0: "length r0 < n" by simp
  have start: "scan_run EndValue (ParseObjectValue # K) s = scan_run EndValue (ParseObjectValue # K) (c # r0)"
    using scan_run_EndValue_skip_ws [of "ParseObjectValue # K" s] ws by simp
  show ?thesis
  proof (cases "c = CHR '',''")
    case True
    then have run: "scan_run EndValue (ParseObjectValue # K) s = scan_run BeginString (ParseObjectKey # K) r0"
      using start by (simp add: object_comma del: scan_run.simps)
    show ?thesis
    proof (cases "scan_key r0")
      case None
      with run scan_key_fail show ?thesis by simp
    next
      case (Some kr)
      obtain k r1 where kr: "kr = (k, r1)" by (cases kr)
      with Some have key: "scan_key r0 = Some (k, r1)" by simp
      note run1 = run [unfolded scan_key_run [OF key]]
      from scan_key_less [OF key] len0 have len1: "length r1 < n" by simp
      show ?thesis
      proof (cases "parse_value n r1")
        case None
        with run1 IHv [OF len1] show ?thesis by simp
      next
        case (Some vr)
        obtain v1 r2 where vr: "vr = (v1, r2)" by (cases vr)
        with Some have v1: "parse_value n r1 = Some (v1, r2)" by simp
        with p ws True key have rest: "parse_object_rest n (acc @ [(k, v1)]) r2 = None" by simp
        from parse_value_less [OF v1] len1 have "length r2 < n" by simp
        with run1 parse_value_scan [OF v1] IHo [OF _ rest] show ?thesis by simp
      qed
    qed
  next
    case False
    with p ws have "c \<noteq> CHR ''}''" by (auto split: if_splits)
    with False start skip_ws_Cons_not_ws [OF ws] show ?thesis by (simp add: end_value_def invalid_def)
  qed
qed

lemma parse_scan_fail:
  "(\<forall>s K. length s < n \<longrightarrow> parse_value n s = None \<longrightarrow> scan_run BeginValue K s \<noteq> None) \<and>
   (\<forall>acc s K. length s < n \<longrightarrow> parse_array_rest n acc s = None \<longrightarrow>
      scan_run EndValue (ParseArrayValue # K) s \<noteq> None) \<and>
   (\<forall>acc s K. length s < n \<longrightarrow> parse_object_rest n acc s = None \<longrightarrow>
      scan_run EndValue (ParseObjectValue # K) s \<noteq> None)"
proof (induction n)
  case 0
  show ?case by simp
next
  case (Suc n)
  have v: "scan_run BeginValue K s \<noteq> None"
    if "length s < Suc n" "parse_value (Suc n) s = None" for s K
    by (rule fail_value_case [where n = n]) (insert Suc.IH that, blast)+
  have a: "scan_run EndValue (ParseArrayValue # K) s \<noteq> None"
    if "length s < Suc n" "parse_array_rest (Suc n) acc s = None" for acc s K
    by (rule fail_array_case [where n = n]) (insert Suc.IH that, blast)+
  have o: "scan_run EndValue (ParseObjectValue # K) s \<noteq> None"
    if "length s < Suc n" "parse_object_rest (Suc n) acc s = None" for acc s K
    by (rule fail_object_case [where n = n]) (insert Suc.IH that, blast)+
  show ?case using v a o by blast
qed

lemmas parse_value_fail_scan = parse_scan_fail [THEN conjunct1, rule_format]

text \<open>\<open>checkValid\<close> accepts exactly the inputs the parser parses.\<close>

theorem check_valid_iff_json_parse: "check_valid s = None \<longleftrightarrow> json_parse s \<noteq> None"
proof (cases "parse_value (Suc (length s)) s")
  case None
  with parse_value_fail_scan [of s "Suc (length s)" "[]"] show ?thesis
    by (simp add: check_valid_run json_parse_def)
next
  case (Some vr)
  obtain v r where vr: "vr = (v, r)" by (cases vr)
  with Some have p: "parse_value (Suc (length s)) s = Some (v, r)" by simp
  have "check_valid s = scan_run EndValue [] (skip_ws r)"
    using parse_value_scan [OF p, of "[]"] scan_run_EndValue_skip_ws [of "[]" r]
    by (simp add: check_valid_run)
  with p show ?thesis
    by (cases "skip_ws r")
      (auto simp: json_parse_def scan_eof_def end_value_def end_top_def invalid_def
        dest: skip_ws_Cons_not_ws)
qed

end

