(* ===== verification/JsonPrefix.thy ===== *)
theory JsonPrefix
  imports JsonValid
begin

text \<open>
  What follows a JSON value does not change how it is read. The parser of \<open>Json\<close> reads
  a value the same way when more input follows it (\<open>parse_value_append\<close>): a string
  ends at its closing quote, an escape looks at most eleven bytes ahead, and only a
  number at the very end of the input could be continued. With the simulation of
  \<open>JsonValid\<close> this gives the scanner's message for input that continues after a
  complete top-level value: Go's \<open>invalid character ... after top-level value\<close>, naming
  the first byte that is not whitespace (\<open>check_valid_trailing\<close>).
\<close>


lemma scan_escape_window:
  assumes "11 \<le> length r"
  shows "scan_escape (r @ t) = map_option (\<lambda>(cs, r'). (cs, r' @ t)) (scan_escape r)"
proof -
  from assms obtain e a b c d x y a2 b2 c2 d2 r3 where
    r: "r = e # a # b # c # d # x # y # a2 # b2 # c2 # d2 # r3"
    by (auto simp: Suc_le_length_iff numeral_eq_Suc)
  show ?thesis unfolding r
    by (cases "hex4 a b c d"; cases "hex4 a2 b2 c2 d2"; cases "simple_escape e") (auto simp: scan_escape_def)
qed

lemma escape_fallback:
  assumes "hex4 a b c d = Some u" "is_surrogate u" "\<not> (\<exists>r'. w = CHR 0x5C # CHR ''u'' # r')"
  shows "scan_escape (CHR ''u'' # a # b # c # d # w) = Some (utf8_encode 0xFFFD, w)"
  using assms by (auto simp: scan_escape_def split: list.split)

lemma string_not_escape_u:
  assumes "scan_string w \<noteq> None" "length w < 6"
  shows "\<not> (\<exists>r'. w @ t = CHR 0x5C # CHR ''u'' # r')"
proof
  assume "\<exists>r'. w @ t = CHR 0x5C # CHR ''u'' # r'"
  then obtain r' where wt: "w @ t = CHR 0x5C # CHR ''u'' # r'" by blast
  from assms(1) obtain x rest where w: "w = x # rest" by (cases w) auto
  with wt have x: "x = CHR 0x5C" by simp
  with assms(1) w obtain p where esc: "scan_escape rest = Some p" by (auto split: option.splits)
  then obtain y rest' where rest: "rest = y # rest'" by (cases rest) (auto simp: scan_escape_def)
  with wt w have "y = CHR ''u''" by simp
  with esc rest have "length rest' \<ge> 4" by (auto simp: scan_escape_def split: list.splits)
  with assms(2) w rest show False by simp
qed

lemma scan_escape_append:
  assumes esc: "scan_escape r0 = Some (cs, r1)" and str: "scan_string r1 \<noteq> None"
  shows "scan_escape (r0 @ t) = Some (cs, r1 @ t)"
proof (cases "11 \<le> length r0")
  case True
  with esc show ?thesis by (simp add: scan_escape_window)
next
  case short: False
  obtain e r' where r0: "r0 = e # r'" using esc by (cases r0) (auto simp: scan_escape_def)
  show ?thesis
  proof (cases "e = CHR ''u''")
    case False
    with esc r0 show ?thesis by (auto simp: scan_escape_def)
  next
    case True
    with esc r0 obtain a b c d r2 u where r': "r' = a # b # c # d # r2" and hex: "hex4 a b c d = Some u"
      by (auto simp: scan_escape_def split: list.splits option.splits)
    show ?thesis
    proof (cases "is_surrogate u")
      case False
      with esc True r0 r' hex show ?thesis by (simp add: scan_escape_def)
    next
      case sur: True
      from short r0 r' have len: "length r2 < 6" by simp
      have no: "\<not> (\<exists>r''. r2 @ t = CHR 0x5C # CHR ''u'' # r'')" if "scan_string r2 \<noteq> None" for t
        using string_not_escape_u [OF that len] .
      have fb: "scan_escape r0 = Some (utf8_encode 0xFFFD, r2)" if "scan_string r2 \<noteq> None"
        using escape_fallback [OF hex sur no [OF that, of "[]"]] True r0 r' by simp
      have "r1 = r2"
      proof (rule ccontr)
        assume "r1 \<noteq> r2"
        with esc True r0 r' hex sur obtain x y a2 b2 c2 d2 where
          "r2 = x # y # a2 # b2 # c2 # d2 # r1"
          by (auto simp: scan_escape_def split: list.splits option.splits if_splits)
        with len show False by simp
      qed
      with str have s2: "scan_string r2 \<noteq> None" by simp
      with fb esc have "cs = utf8_encode 0xFFFD" by simp
      with escape_fallback [OF hex sur no [OF s2, of t]] True r0 r' \<open>r1 = r2\<close> show ?thesis by simp
    qed
  qed
qed


lemma scan_string_append:
  "scan_string s = Some (x, r) \<Longrightarrow> scan_string (s @ t) = Some (x, r @ t)"
proof (induction s arbitrary: x r rule: scan_string.induct)
  case (2 c r0)
  show ?case
  proof (cases "c = CHR 0x22 \<or> of_char c < (32::nat)")
    case True
    with 2 show ?thesis by (auto split: if_splits)
  next
    case False
    show ?thesis
    proof (cases "c = CHR 0x5C")
      case True
      with 2 obtain cs r1 y where esc: "scan_escape r0 = Some (cs, r1)"
        and rest: "scan_string r1 = Some (y, r)" and x: "x = cs @ y"
        by (auto split: option.splits)
      from scan_escape_append [OF esc] rest have "scan_escape (r0 @ t) = Some (cs, r1 @ t)" by simp
      with True esc rest x 2(1) show ?thesis by simp
    next
      case nb: False
      with False 2 obtain y where rest: "scan_string r0 = Some (y, r)" and x: "x = c # y"
        by auto
      with nb False 2(2) show ?thesis by simp
    qed
  qed
qed simp

lemma skip_ws_append:
  assumes "skip_ws s = c # r"
  shows "skip_ws (s @ t) = c # r @ t"
proof -
  from assms have "c \<in> set s" "\<not> is_ws c"
    unfolding skip_ws_def by (metis list.set_intros(1) set_dropWhileD, metis dropWhile_eq_Cons_conv)
  with assms show ?thesis by (simp add: skip_ws_def dropWhile_append1)
qed

lemma scan_key_append:
  assumes "scan_key s = Some (k, r)"
  shows "scan_key (s @ t) = Some (k, r @ t)"
proof -
  from assms obtain r0 r1 where ws: "skip_ws s = CHR 0x22 # r0" and str: "scan_string r0 = Some (k, r1)"
    and col: "skip_ws r1 = CHR '':'' # r"
    by (auto simp: scan_key_def split: list.splits if_splits option.splits)
  from skip_ws_append [OF ws] scan_string_append [OF str] skip_ws_append [OF col] show ?thesis
    by (simp add: scan_key_def)
qed


lemma while_append:
  assumes "dropWhile P r \<noteq> []"
  shows "takeWhile P (r @ t) = takeWhile P r" "dropWhile P (r @ t) = dropWhile P r @ t"
proof -
  from assms obtain x r' where d: "dropWhile P r = x # r'" by (cases "dropWhile P r") auto
  then have "x \<in> set r" "\<not> P x"
    by (metis list.set_intros(1) set_dropWhileD, metis dropWhile_eq_Cons_conv)
  then show "takeWhile P (r @ t) = takeWhile P r" "dropWhile P (r @ t) = dropWhile P r @ t"
    by (simp_all add: takeWhile_append1 dropWhile_append1)
qed

lemma scan_int_append:
  "scan_int s = Some (i, s2) \<Longrightarrow> s2 \<noteq> [] \<Longrightarrow> scan_int (s @ t) = Some (i, s2 @ t)"
  by (auto simp: scan_int_def while_append split: list.splits if_splits)

lemma scan_frac_append:
  "scan_frac s2 = Some (f, s3) \<Longrightarrow> s3 \<noteq> [] \<Longrightarrow> scan_frac (s2 @ t) = Some (f, s3 @ t)"
  by (auto simp: scan_frac_def while_append split: list.splits if_splits)

lemma scan_exp_append:
  "scan_exp s3 = Some (e, s4) \<Longrightarrow> s4 \<noteq> [] \<Longrightarrow> scan_exp (s3 @ t) = Some (e, s4 @ t)"
  by (auto simp: scan_exp_def Let_def while_append split: list.splits if_splits)

lemma scan_number_append:
  assumes "scan_number s = Some (x, r)" "r \<noteq> []"
  shows "scan_number (s @ t) = Some (x, r @ t)"
proof -
  obtain sg s1 where sg: "(case s of c # r \<Rightarrow> if c = CHR ''-'' then (''-'', r) else ([], s) | [] \<Rightarrow> ([], s)) = (sg, s1)"
    by fastforce
  have sgt: "(case s @ t of c # r \<Rightarrow> if c = CHR ''-'' then (''-'', r) else ([], s @ t) | [] \<Rightarrow> ([], s @ t)) = (sg, s1 @ t)"
    if "s \<noteq> []"
    using sg that by (cases s) (auto split: if_splits)
  from assms sg obtain i s2 f s3 e where int: "scan_int s1 = Some (i, s2)" and frac: "scan_frac s2 = Some (f, s3)"
    and ex: "scan_exp s3 = Some (e, r)" and x: "x = sg @ i @ f @ e"
    by (auto simp: scan_number_def split: option.splits)
  from ex assms(2) have s3: "s3 \<noteq> []" by (auto simp: scan_exp_def)
  from frac s3 have s2: "s2 \<noteq> []" by (auto simp: scan_frac_def)
  from int have "s \<noteq> []" using sg by (auto simp: scan_int_def)
  with sgt int frac ex x scan_int_append [OF int s2] scan_frac_append [OF frac s3] scan_exp_append [OF ex assms(2)]
  show ?thesis by (simp add: scan_number_def)
qed


lemma parse_array_rest_ne: "parse_array_rest n acc s = Some (v, r) \<Longrightarrow> s \<noteq> []"
  by (cases n) (auto simp: skip_ws_def)

lemma parse_object_rest_ne: "parse_object_rest n acc s = Some (v, r) \<Longrightarrow> s \<noteq> []"
  by (cases n) (auto simp: skip_ws_def)

lemma take_eq_length: "take n xs = ys \<Longrightarrow> length ys = n \<Longrightarrow> n \<le> length xs"
  by (drule arg_cong [where f = length]) (simp add: min_def split: if_splits)

lemma ext_value_case:
  assumes IHv: "\<And>s v r. parse_value n s = Some (v, r) \<Longrightarrow> r \<noteq> [] \<Longrightarrow>
                 parse_value n (s @ t) = Some (v, r @ t)"
    and IHa: "\<And>acc s v r. parse_array_rest n acc s = Some (v, r) \<Longrightarrow>
                 parse_array_rest n acc (s @ t) = Some (v, r @ t)"
    and IHo: "\<And>acc s v r. parse_object_rest n acc s = Some (v, r) \<Longrightarrow>
                 parse_object_rest n acc (s @ t) = Some (v, r @ t)"
    and p: "parse_value (Suc n) s = Some (v, r)" and num: "\<forall>x. v = JNum x \<longrightarrow> r \<noteq> []"
  shows "parse_value (Suc n) (s @ t) = Some (v, r @ t)"
proof -
  from p obtain c r0 where ws: "skip_ws s = c # r0" by (cases "skip_ws s") auto
  note wst = skip_ws_append [OF ws, of t]
  consider "c = CHR ''{''" | "c = CHR ''[''" | "c = CHR 0x22"
    | "c \<noteq> CHR ''{''" "c \<noteq> CHR ''[''" "c \<noteq> CHR 0x22" by blast
  then show ?thesis
  proof cases
    case 1
    with p ws obtain d r1 where ws1: "skip_ws r0 = d # r1" by (auto split: list.splits)
    note ws1t = skip_ws_append [OF ws1, of t]
    show ?thesis
    proof (cases "d = CHR ''}''")
      case True
      with p ws ws1 1 wst ws1t show ?thesis by simp
    next
      case False
      with p ws ws1 1 obtain k r2 v1 r3 where key: "scan_key r0 = Some (k, r2)"
        and v1: "parse_value n r2 = Some (v1, r3)" and rest: "parse_object_rest n [(k, v1)] r3 = Some (v, r)"
        by (auto split: option.splits)
      from 1 False wst ws1t scan_key_append [OF key] IHv [OF v1 parse_object_rest_ne [OF rest]] IHo [OF rest]
      show ?thesis by simp
    qed
  next
    case 2
    with p ws obtain d r1 where ws1: "skip_ws r0 = d # r1" by (auto split: list.splits)
    note ws1t = skip_ws_append [OF ws1, of t]
    show ?thesis
    proof (cases "d = CHR '']''")
      case True
      with p ws ws1 2 wst ws1t show ?thesis by simp
    next
      case False
      with p ws ws1 2 obtain v1 r2 where v1: "parse_value n r0 = Some (v1, r2)"
        and rest: "parse_array_rest n [v1] r2 = Some (v, r)"
        by (auto split: option.splits)
      from 2 False wst ws1t IHv [OF v1 parse_array_rest_ne [OF rest]] IHa [OF rest]
      show ?thesis by simp
    qed
  next
    case 3
    with p ws obtain x where "scan_string r0 = Some (x, r)" "v = JStr x" by auto
    with 3 wst scan_string_append show ?thesis by simp
  next
    case 4
    have lit: "(if take 4 (c # r0) = ''true'' then Some (JBool True, drop 3 r0)
        else if take 5 (c # r0) = ''false'' then Some (JBool False, drop 4 r0)
        else if take 4 (c # r0) = ''null'' then Some (JNull, drop 3 r0)
        else map_option (\<lambda>(x, r1). (JNum x, r1)) (scan_number (c # r0))) = Some (v, r)"
      using p ws 4 by simp
    have nonum: "scan_number (c # r0) = None" if "c = CHR ''t'' \<or> c = CHR ''f'' \<or> c = CHR ''n''"
      using that by (auto simp: scan_number_def scan_int_def is_digit_def)
    consider "c = CHR ''t''" | "c = CHR ''f''" | "c = CHR ''n''"
      | "c \<noteq> CHR ''t''" "c \<noteq> CHR ''f''" "c \<noteq> CHR ''n''" by blast
    then show ?thesis
    proof cases
      case 1
      with lit nonum have "take 3 r0 = ''rue''" "v = JBool True" "r = drop 3 r0"
        by (auto split: if_splits)
      moreover from this(1) have "3 \<le> length r0" by (rule take_eq_length) simp_all
      ultimately show ?thesis using 1 4 wst by simp
    next
      case 2
      with lit nonum have "take 4 r0 = ''alse''" "v = JBool False" "r = drop 4 r0"
        by (auto split: if_splits)
      moreover from this(1) have "4 \<le> length r0" by (rule take_eq_length) simp_all
      ultimately show ?thesis using 2 4 wst by simp
    next
      case 3
      with lit nonum have "take 3 r0 = ''ull''" "v = JNull" "r = drop 3 r0"
        by (auto split: if_splits)
      moreover from this(1) have "3 \<le> length r0" by (rule take_eq_length) simp_all
      ultimately show ?thesis using 3 4 wst by simp
    next
      case 5: 4
      with lit obtain x where "scan_number (c # r0) = Some (x, r)" "v = JNum x" by auto
      with num scan_number_append [of "c # r0" x r t] 5 4 wst show ?thesis by simp
    qed
  qed
qed


lemma ext_array_case:
  assumes IHv: "\<And>s v r. parse_value n s = Some (v, r) \<Longrightarrow> r \<noteq> [] \<Longrightarrow>
                 parse_value n (s @ t) = Some (v, r @ t)"
    and IHa: "\<And>acc s v r. parse_array_rest n acc s = Some (v, r) \<Longrightarrow>
                 parse_array_rest n acc (s @ t) = Some (v, r @ t)"
    and p: "parse_array_rest (Suc n) acc s = Some (v, r)"
  shows "parse_array_rest (Suc n) acc (s @ t) = Some (v, r @ t)"
proof -
  from p obtain c r0 where ws: "skip_ws s = c # r0" by (cases "skip_ws s") auto
  note wst = skip_ws_append [OF ws, of t]
  show ?thesis
  proof (cases "c = CHR '',''")
    case True
    with p ws obtain v1 r1 where v1: "parse_value n r0 = Some (v1, r1)"
      and rest: "parse_array_rest n (acc @ [v1]) r1 = Some (v, r)"
      by (auto split: option.splits)
    from True wst IHv [OF v1 parse_array_rest_ne [OF rest]] IHa [OF rest] show ?thesis by simp
  next
    case False
    with p ws wst show ?thesis by (auto split: if_splits)
  qed
qed

lemma ext_object_case:
  assumes IHv: "\<And>s v r. parse_value n s = Some (v, r) \<Longrightarrow> r \<noteq> [] \<Longrightarrow>
                 parse_value n (s @ t) = Some (v, r @ t)"
    and IHo: "\<And>acc s v r. parse_object_rest n acc s = Some (v, r) \<Longrightarrow>
                 parse_object_rest n acc (s @ t) = Some (v, r @ t)"
    and p: "parse_object_rest (Suc n) acc s = Some (v, r)"
  shows "parse_object_rest (Suc n) acc (s @ t) = Some (v, r @ t)"
proof -
  from p obtain c r0 where ws: "skip_ws s = c # r0" by (cases "skip_ws s") auto
  note wst = skip_ws_append [OF ws, of t]
  show ?thesis
  proof (cases "c = CHR '',''")
    case True
    with p ws obtain k r1 v1 r2 where key: "scan_key r0 = Some (k, r1)"
      and v1: "parse_value n r1 = Some (v1, r2)"
      and rest: "parse_object_rest n (acc @ [(k, v1)]) r2 = Some (v, r)"
      by (auto split: option.splits)
    from True wst scan_key_append [OF key] IHv [OF v1 parse_object_rest_ne [OF rest]] IHo [OF rest]
    show ?thesis by simp
  next
    case False
    with p ws wst show ?thesis by (auto split: if_splits)
  qed
qed

text \<open>The parser does not look past the value it reads, except at the end of a number
  that the input ends: whatever follows the value is left as it is.\<close>

lemma parse_append:
  "(\<forall>s v r. parse_value n s = Some (v, r) \<longrightarrow> (\<forall>x. v = JNum x \<longrightarrow> r \<noteq> []) \<longrightarrow>
      parse_value n (s @ t) = Some (v, r @ t)) \<and>
   (\<forall>acc s v r. parse_array_rest n acc s = Some (v, r) \<longrightarrow>
      parse_array_rest n acc (s @ t) = Some (v, r @ t)) \<and>
   (\<forall>acc s v r. parse_object_rest n acc s = Some (v, r) \<longrightarrow>
      parse_object_rest n acc (s @ t) = Some (v, r @ t))"
proof (induction n)
  case 0
  show ?case by simp
next
  case (Suc n)
  have IHv: "parse_value n (s @ t) = Some (v, r @ t)"
    if "parse_value n s = Some (v, r)" "r \<noteq> []" for s v r
    using Suc.IH that by blast
  have v: "parse_value (Suc n) (s @ t) = Some (v, r @ t)"
    if "parse_value (Suc n) s = Some (v, r)" "\<forall>x. v = JNum x \<longrightarrow> r \<noteq> []" for s v r
    by (rule ext_value_case [where n = n]) (insert IHv Suc.IH that, blast+)
  have a: "parse_array_rest (Suc n) acc (s @ t) = Some (v, r @ t)"
    if "parse_array_rest (Suc n) acc s = Some (v, r)" for acc s v r
    by (rule ext_array_case [where n = n]) (insert IHv Suc.IH that, blast+)
  have o: "parse_object_rest (Suc n) acc (s @ t) = Some (v, r @ t)"
    if "parse_object_rest (Suc n) acc s = Some (v, r)" for acc s v r
    by (rule ext_object_case [where n = n]) (insert IHv Suc.IH that, blast+)
  show ?case using v a o by blast
qed

lemmas parse_value_append = parse_append [THEN conjunct1, rule_format]


lemma skip_ws_blank_append: "skip_ws r = [] \<Longrightarrow> skip_ws (r @ x) = skip_ws x"
  by (simp add: skip_ws_def dropWhile_append2 dropWhile_eq_Nil_conv)

text \<open>A complete top-level value other than a number, followed by a byte that is not
  whitespace, is rejected at that byte.\<close>

theorem check_valid_trailing:
  assumes "json_parse s = Some v" and "\<forall>x. v \<noteq> JNum x" and "\<not> is_ws c"
  shows "check_valid (s @ c # t) = Some (''invalid character '' @ quote_char c @ '' after top-level value'')"
proof -
  from assms(1) obtain r where p: "parse_value (Suc (length s)) s = Some (v, r)" and ws: "skip_ws r = []"
    by (auto simp: json_parse_def split: option.splits if_splits)
  from parse_value_append [OF p] assms(2)
  have "parse_value (Suc (length s)) (s @ c # t) = Some (v, r @ c # t)" by simp
  then have "check_valid (s @ c # t) = scan_run EndValue [] (r @ c # t)"
    unfolding check_valid_run by (rule parse_value_scan)
  also have "\<dots> = scan_run EndValue [] (skip_ws (r @ c # t))"
    by (rule scan_run_EndValue_skip_ws)
  also have "skip_ws (r @ c # t) = c # t"
    using skip_ws_blank_append [OF ws] assms(3) by (simp add: skip_ws_def)
  finally show ?thesis
    using assms(3) by (simp add: end_value_def end_top_def invalid_def)
qed

end
