(* ===== verification/JsonDecode.thy ===== *)
theory JsonDecode
  imports JsonPrefix
begin

text \<open>
  What \<open>json.Unmarshal\<close> does with a parsed value: the kinds it reports in type errors,
  how an object is decoded into a \<open>map[string]interface{}\<close> (members in order, a later
  duplicate overwriting an earlier one, an existing map extended), and how an object is
  decoded into a struct: a key selects the struct field by the rules of
  \<open>cachedTypeFields\<close> and \<open>decodeState.object\<close>, in which only exported fields take part.
  A type error is remembered and decoding goes on; the first one is returned.
\<close>

section \<open>Kinds and top-level decoding\<close>

text \<open>The kind a JSON value is reported as in an \<open>UnmarshalTypeError\<close>.\<close>

fun json_kind :: "json \<Rightarrow> string" where
  "json_kind JNull = ''null''"
| "json_kind (JBool _) = ''bool''"
| "json_kind (JNum _) = ''number''"
| "json_kind (JStr _) = ''string''"
| "json_kind (JArr _) = ''array''"
| "json_kind (JObj _) = ''object''"

text \<open>\<open>json.Unmarshal(data, v)\<close>: \<open>checkValid\<close> first, whose error is returned as it is;
  then the value is decoded into the target. The decode of an input the scanner accepted
  always yields a value (\<open>check_valid_iff_json_parse\<close>), so the last branch is never
  taken.\<close>

definition json_unmarshal :: "(json \<Rightarrow> go_error + 'a) \<Rightarrow> string \<Rightarrow> go_error + 'a" where
  "json_unmarshal dec s =
    (case check_valid s of
       Some msg \<Rightarrow> Inl (JsonSyntaxError msg)
     | None \<Rightarrow> (case json_parse s of Some j \<Rightarrow> dec j | None \<Rightarrow> Inl (JsonSyntaxError [])))"

section \<open>Objects into maps\<close>

text \<open>\<open>decodeState.object\<close> with a map target: a nil map is made first, then every
  member is stored in turn with \<open>SetMapIndex\<close>.\<close>

definition store_members :: "(string \<times> json) list \<Rightarrow> (string \<rightharpoonup> json) \<Rightarrow> (string \<rightharpoonup> json)" where
  "store_members kvs m = fold (\<lambda>(k, v) m. m(k \<mapsto> v)) kvs m"

definition decode_map :: "(string \<times> json) list \<Rightarrow> json go_map \<Rightarrow> json go_map" where
  "decode_map kvs old = Some (store_members kvs (case old of None \<Rightarrow> Map.empty | Some m \<Rightarrow> m))"

section \<open>Objects into structs\<close>

text \<open>A field of a Go struct type as \<open>reflect\<close> sees it: its name, whether it is
  exported (its name starts with an upper-case letter), and its \<open>json\<close> tag name.\<close>

record go_field =
  field_name :: string
  field_exported :: bool
  field_tag :: "string option"

definition json_key_of :: "go_field \<Rightarrow> string" where
  "json_key_of f = (case field_tag f of Some t \<Rightarrow> t | None \<Rightarrow> field_name f)"

definition ascii_lower :: "char \<Rightarrow> char" where
  "ascii_lower c = (if 65 \<le> (of_char c :: nat) \<and> (of_char c :: nat) \<le> 90
                    then char_of (of_char c + (32::nat)) else c)"

text \<open>The case folding of key matching, on ASCII (Go also folds the Kelvin sign and
  the long s, which the model does not).\<close>

definition equal_fold :: "string \<Rightarrow> string \<Rightarrow> bool" where
  "equal_fold a b \<longleftrightarrow> map ascii_lower a = map ascii_lower b"

text \<open>
  The field a key selects: among the exported fields only (\<open>cachedTypeFields\<close> drops
  unexported ones), the first whose JSON name equals the key, otherwise the first whose
  name equals it up to case.
\<close>

definition field_for_key :: "go_field list \<Rightarrow> string \<Rightarrow> go_field option" where
  "field_for_key fs k =
    (let vis = filter field_exported fs in
     case find (\<lambda>f. json_key_of f = k) vis of
       Some f \<Rightarrow> Some f
     | None \<Rightarrow> find (\<lambda>f. equal_fold (json_key_of f) k) vis)"

text \<open>
  The members of an object, decoded into a struct value of type \<open>'a\<close> through a setter
  for its fields: a member whose key selects no field is skipped; a setter that fails
  leaves the struct as it was and its error is kept if it is the first.
\<close>

fun decode_members ::
  "go_field list \<Rightarrow> (go_field \<Rightarrow> json \<Rightarrow> 'a \<Rightarrow> go_error + 'a) \<Rightarrow> (string \<times> json) list \<Rightarrow>
   go_error option \<times> 'a \<Rightarrow> go_error option \<times> 'a" where
  "decode_members fs setf [] st = st"
| "decode_members fs setf ((k, v) # kvs) (e, a) =
     decode_members fs setf kvs
       (case field_for_key fs k of
          None \<Rightarrow> (e, a)
        | Some f \<Rightarrow> (case setf f v a of
                       Inl e' \<Rightarrow> (if e = None then Some e' else e, a)
                     | Inr a' \<Rightarrow> (e, a')))"

text \<open>A value decoded into a struct of Go type \<open>tn\<close>: an object member by member,
  \<open>null\<close> leaves the struct alone, any other kind is a type error.\<close>

definition decode_struct ::
  "go_field list \<Rightarrow> (go_field \<Rightarrow> json \<Rightarrow> 'a \<Rightarrow> go_error + 'a) \<Rightarrow> string \<Rightarrow> 'a \<Rightarrow> json \<Rightarrow>
   go_error + 'a" where
  "decode_struct fs setf tn a j =
    (case j of
       JObj kvs \<Rightarrow> (case decode_members fs setf kvs (None, a) of
                     (None, a') \<Rightarrow> Inr a'
                   | (Some e, _) \<Rightarrow> Inl e)
     | JNull \<Rightarrow> Inr a
     | _ \<Rightarrow> Inl (JsonUnmarshalTypeError (json_kind j) None tn))"

section \<open>Field setters\<close>

text \<open>A \<open>string\<close> field: a JSON string is stored, \<open>null\<close> is ignored, any other kind
  is a type error naming the field.\<close>

definition set_string_field :: "string \<Rightarrow> json \<Rightarrow> string \<Rightarrow> go_error + string" where
  "set_string_field fld j old =
    (case j of
       JStr s \<Rightarrow> Inr s
     | JNull \<Rightarrow> Inr old
     | _ \<Rightarrow> Inl (JsonUnmarshalTypeError (json_kind j) (Some fld) ''string''))"

text \<open>A \<open>map[string]interface{}\<close> field: an object is stored into the map, \<open>null\<close>
  sets it to nil, any other kind is a type error naming the field.\<close>

definition set_map_field :: "string \<Rightarrow> json \<Rightarrow> json go_map \<Rightarrow> go_error + json go_map" where
  "set_map_field fld j old =
    (case j of
       JObj kvs \<Rightarrow> Inr (decode_map kvs old)
     | JNull \<Rightarrow> Inr None
     | _ \<Rightarrow> Inl (JsonUnmarshalTypeError (json_kind j) (Some fld) ''map[string]interface {}''))"

section \<open>Properties\<close>

text \<open>\<open>json.Unmarshal\<close> as a case on the parser: a syntax error carries the
  scanner's message.\<close>

lemma json_unmarshal_eq:
  "json_unmarshal dec s =
    (case json_parse s of None \<Rightarrow> Inl (JsonSyntaxError (the (check_valid s))) | Some j \<Rightarrow> dec j)"
  using check_valid_iff_json_parse [of s]
  by (auto simp: json_unmarshal_def split: option.split)

lemma json_unmarshal_syntax_error:
  "check_valid s = Some msg \<Longrightarrow> json_unmarshal dec s = Inl (JsonSyntaxError msg)"
  by (simp add: json_unmarshal_def)

lemma store_members_lookup:
  "store_members kvs m k = (case map_of (rev kvs) k of Some v \<Rightarrow> Some v | None \<Rightarrow> m k)"
  by (simp add: store_members_def fold_upd_map_add map_add_def)

text \<open>Insert/lookup: after decoding, a key holds the value of its last occurrence in the
  object, and keys the object does not mention keep their old values.\<close>

lemma decode_map_lookup:
  "go_map_lookup (decode_map kvs old) k =
     (case map_of (rev kvs) k of Some v \<Rightarrow> Some v | None \<Rightarrow> go_map_lookup old k)"
  by (cases old) (simp_all add: decode_map_def go_map_lookup_def store_members_lookup
      split: option.split)




lemma field_for_key_exported:
  "field_for_key fs k = Some f \<Longrightarrow> field_exported f \<and> f \<in> set fs"
  by (auto simp: field_for_key_def Let_def split: option.splits dest!: find_Some_in_set)

lemma field_for_key_none_unexported:
  "\<forall>f \<in> set fs. \<not> field_exported f \<Longrightarrow> field_for_key fs k = None"
proof -
  assume "\<forall>f \<in> set fs. \<not> field_exported f"
  then have "filter field_exported fs = []" by (simp add: filter_empty_conv)
  then show ?thesis by (simp add: field_for_key_def)
qed

lemma decode_members_no_field:
  "(\<And>k. field_for_key fs k = None) \<Longrightarrow> decode_members fs setf kvs st = st"
proof (induction kvs arbitrary: st)
  case Nil
  show ?case by simp
next
  case (Cons kv kvs)
  then show ?case by (cases kv; cases st) simp
qed

text \<open>
  A struct none of whose fields is exported is left as it was by every object and by
  \<open>null\<close>; any other JSON kind is a type error. This is the decoding of a struct whose
  fields all start with a lower-case letter.
\<close>

lemma decode_struct_unexported:
  assumes "\<forall>f \<in> set fs. \<not> field_exported f"
  shows "decode_struct fs setf tn a j =
    (case j of JObj _ \<Rightarrow> Inr a | JNull \<Rightarrow> Inr a
     | _ \<Rightarrow> Inl (JsonUnmarshalTypeError (json_kind j) None tn))"
proof -
  have "\<And>k. field_for_key fs k = None"
    using assms by (rule field_for_key_none_unexported)
  then have "\<And>kvs. decode_members fs setf kvs (None, a) = (None, a)"
    by (rule decode_members_no_field)
  then show ?thesis by (simp add: decode_struct_def split: json.split)
qed

end
