(* ===== verification/Client.thy ===== *)
theory Client
  imports JsonDecode
begin

text \<open>
  The client library as the handler sees it: the user context of the Go SDK
  (\<open>entities.UserContext\<close>) and the signature of the tracking call
  \<open>optlyClient.Track(eventKey, uc, eventTags)\<close>, stated over the client handle \<open>'h\<close>
  and the library's state \<open>'s\<close>; the handler is proved correct for every implementation.
  The SDK's own tracking logic is not part of the repository and is not modelled; an
  event-queue implementation of the interface is given to instantiate the handler lemmas,
  with the interface obligation (\<open>track_preserves\<close>) discharged for it.
\<close>

section \<open>User context\<close>

text \<open>\<open>entities.UserContext{ID, Attributes}\<close>.\<close>

record user_context =
  uc_id :: string
  uc_attributes :: "json go_map"

section \<open>The tracking interface\<close>

text \<open>\<open>func (c *OptlyClient) Track(eventKey string, uc entities.UserContext,
  eventTags map[string]interface{}) error\<close>: the error (\<open>None\<close> for \<open>nil\<close>) and the
  library's state after the call.\<close>

type_synonym ('h, 's) track_fn =
  "'h \<Rightarrow> string \<Rightarrow> user_context \<Rightarrow> json go_map \<Rightarrow> 's \<Rightarrow> go_error option \<times> 's"

text \<open>The interface obligation for an invariant of the library's state: every call keeps it.\<close>

definition track_preserves :: "('h, 's) track_fn \<Rightarrow> ('s \<Rightarrow> bool) \<Rightarrow> bool" where
  "track_preserves tr I \<longleftrightarrow>
     (\<forall>h k uc tags s. I s \<longrightarrow> I (snd (tr h k uc tags s)))"

section \<open>An event-queue implementation\<close>

text \<open>A client that knows a list of event keys, queues a call for a known key and
  returns an error for any other key.\<close>

record event_queue =
  eq_known :: "string list"
  eq_events :: "(string \<times> user_context \<times> json go_map) list"

definition queue_track :: "(unit, event_queue) track_fn" where
  "queue_track h k uc tags q =
    (if k \<in> set (eq_known q)
     then (None, q\<lparr>eq_events := eq_events q @ [(k, uc, tags)]\<rparr>)
     else (Some (ErrorString (''event not found: '' @ k)), q))"

definition queue_ok :: "event_queue \<Rightarrow> bool" where
  "queue_ok q \<longleftrightarrow> (\<forall>e \<in> set (eq_events q). fst e \<in> set (eq_known q))"

lemma queue_track_preserves: "track_preserves queue_track queue_ok"
  by (auto simp: track_preserves_def queue_track_def queue_ok_def)

lemma queue_track_known:
  "k \<in> set (eq_known q) \<Longrightarrow>
     queue_track h k uc tags q = (None, q\<lparr>eq_events := eq_events q @ [(k, uc, tags)]\<rparr>)"
  by (simp add: queue_track_def)

lemma queue_track_unknown:
  "k \<notin> set (eq_known q) \<Longrightarrow>
     queue_track h k uc tags q = (Some (ErrorString (''event not found: '' @ k)), q)"
  by (simp add: queue_track_def)

end
