(* ===== verification/UrlQuery.thy ===== *)
theory UrlQuery
  imports Prelude
begin

text \<open>
  The query string of the request URL as the handler reads it:
  \<open>r.URL.Query()\<close> is \<open>url.ParseQuery(r.URL.RawQuery)\<close> with its error dropped, and
  \<open>.Get(key)\<close> is the first value stored under the key, or the empty string. The parser
  is the one of Go releases up to 1.16, which splits at both \<open>&\<close> and \<open>;\<close>, skips empty
  segments, splits a segment at its first \<open>=\<close> and skips a pair whose key or value has a
  malformed percent escape. Also here: \<open>url.QueryEscape\<close>, and the facts that unescaping
  undoes escaping and that \<open>Get\<close> returns the first value given for a key.
\<close>

section \<open>Percent decoding\<close>

text \<open>\<open>url.QueryUnescape\<close>: \<open>%XX\<close> is the byte with that hexadecimal value, \<open>+\<close> is a
  space; a \<open>%\<close> not followed by two hexadecimal digits is an \<open>EscapeError\<close> naming at
  most three bytes from the \<open>%\<close> on.\<close>

fun query_unescape :: "string \<Rightarrow> go_error + string" where
  "query_unescape [] = Inr []"
| "query_unescape (c # r) =
    (if c = CHR ''%'' then
       (case r of
          a # b # r' \<Rightarrow>
            (case (hex_val a, hex_val b) of
               (Some x, Some y) \<Rightarrow> map_sum id (Cons (char_of (16 * x + y))) (query_unescape r')
             | _ \<Rightarrow> Inl (UrlEscapeError (take 3 (c # r))))
        | _ \<Rightarrow> Inl (UrlEscapeError (take 3 (c # r))))
     else if c = CHR ''+'' then map_sum id (Cons (CHR '' '')) (query_unescape r)
     else map_sum id (Cons c) (query_unescape r))"

section \<open>Splitting the query\<close>

definition is_query_sep :: "char \<Rightarrow> bool" where
  "is_query_sep c \<longleftrightarrow> c = CHR ''&'' \<or> c = CHR '';''"

text \<open>The segments between separators, in order; the \<open>for query != ""\<close> loop of
  \<open>parseQuery\<close>, which cuts at \<open>strings.IndexAny(key, "&;")\<close>.\<close>

function query_segments :: "string \<Rightarrow> string list" where
  "query_segments [] = []"
| "query_segments (c # cs) =
     takeWhile (\<lambda>x. \<not> is_query_sep x) (c # cs) #
       (case dropWhile (\<lambda>x. \<not> is_query_sep x) (c # cs) of
          [] \<Rightarrow> []
        | _ # r \<Rightarrow> query_segments r)"
  by pat_completeness auto
termination
proof (relation "measure length")
  fix c :: char and cs r :: string and x
  assume "dropWhile (\<lambda>x. \<not> is_query_sep x) (c # cs) = x # r"
  then have "length (x # r) \<le> length (c # cs)"
    by (metis length_dropWhile_le)
  then show "(r, c # cs) \<in> measure length" by simp
qed simp

text \<open>A segment's key and value: split at the first \<open>=\<close>; no \<open>=\<close> gives an empty value.\<close>

definition split_key_value :: "string \<Rightarrow> string \<times> string" where
  "split_key_value seg =
    (case dropWhile (\<lambda>x. x \<noteq> CHR ''='') seg of
       [] \<Rightarrow> (seg, [])
     | _ # v \<Rightarrow> (takeWhile (\<lambda>x. x \<noteq> CHR ''='') seg, v))"

section \<open>url.Values\<close>

text \<open>\<open>url.Values\<close> is \<open>map[string][]string\<close>.\<close>

type_synonym url_values = "string \<rightharpoonup> string list"

definition values_add :: "url_values \<Rightarrow> string \<Rightarrow> string \<Rightarrow> url_values" where
  "values_add m k v = m(k \<mapsto> (case m k of None \<Rightarrow> [] | Some vs \<Rightarrow> vs) @ [v])"

text \<open>The loop body of \<open>parseQuery\<close> over the segments, keeping the first error.\<close>

fun parse_query_segments ::
  "string list \<Rightarrow> url_values \<Rightarrow> go_error option \<Rightarrow> url_values \<times> go_error option" where
  "parse_query_segments [] m err = (m, err)"
| "parse_query_segments (seg # segs) m err =
     (if seg = [] then parse_query_segments segs m err
      else (case split_key_value seg of (k, v) \<Rightarrow>
             (case query_unescape k of
                Inl e \<Rightarrow> parse_query_segments segs m (if err = None then Some e else err)
              | Inr k' \<Rightarrow>
                  (case query_unescape v of
                     Inl e \<Rightarrow> parse_query_segments segs m (if err = None then Some e else err)
                   | Inr v' \<Rightarrow> parse_query_segments segs (values_add m k' v') err))))"

definition parse_query :: "string \<Rightarrow> url_values \<times> go_error option" where
  "parse_query q = parse_query_segments (query_segments q) Map.empty None"

text \<open>\<open>URL.Query()\<close>: the values, the error dropped.\<close>

definition url_query :: "string \<Rightarrow> url_values" where
  "url_query raw = fst (parse_query raw)"

text \<open>\<open>Values.Get\<close>.\<close>

definition values_get :: "url_values \<Rightarrow> string \<Rightarrow> string" where
  "values_get m k = (case m k of Some (v # _) \<Rightarrow> v | _ \<Rightarrow> [])"

section \<open>Percent encoding\<close>

definition hex_digit :: "nat \<Rightarrow> char" where
  "hex_digit n = ''0123456789ABCDEF'' ! n"

text \<open>The bytes \<open>url.QueryEscape\<close> leaves as they are: letters, digits and \<open>-_.~\<close>.\<close>

definition query_unreserved :: "char \<Rightarrow> bool" where
  "query_unreserved c \<longleftrightarrow>
     (let n = (of_char c :: nat) in
      (97 \<le> n \<and> n \<le> 122) \<or> (65 \<le> n \<and> n \<le> 90) \<or> (48 \<le> n \<and> n \<le> 57) \<or>
      c = CHR ''-'' \<or> c = CHR ''_'' \<or> c = CHR ''.'' \<or> c = CHR ''~'')"

text \<open>\<open>url.QueryEscape\<close>: a space becomes \<open>+\<close>, every other reserved byte \<open>%XX\<close> with
  upper-case digits.\<close>

fun query_escape :: "string \<Rightarrow> string" where
  "query_escape [] = []"
| "query_escape (c # r) =
    (if query_unreserved c then [c]
     else if c = CHR '' '' then ''+''
     else [CHR ''%'', hex_digit (of_char c div 16), hex_digit (of_char c mod 16)]) @ query_escape r"

section \<open>Reference readings\<close>

text \<open>A reference reading of the query: the decoded pairs of the segments, in order,
  malformed pairs left out; and the values a key has in such a list.\<close>

fun segment_pairs :: "string list \<Rightarrow> (string \<times> string) list" where
  "segment_pairs [] = []"
| "segment_pairs (seg # segs) =
     (if seg = [] then segment_pairs segs
      else (case split_key_value seg of (k, v) \<Rightarrow>
             (case (query_unescape k, query_unescape v) of
                (Inr k', Inr v') \<Rightarrow> (k', v') # segment_pairs segs
              | _ \<Rightarrow> segment_pairs segs)))"

fun values_of :: "string \<Rightarrow> (string \<times> string) list \<Rightarrow> string list" where
  "values_of k [] = []"
| "values_of k ((k', v) # ps) = (if k' = k then v # values_of k ps else values_of k ps)"

text \<open>The query a client writes for a list of pairs: each key and value escaped with
  \<open>QueryEscape\<close>, joined by \<open>=\<close> and \<open>&\<close> (\<open>Values.Encode\<close> writes this for the pairs sorted
  by key).\<close>

definition query_pair :: "string \<times> string \<Rightarrow> string" where
  "query_pair p = query_escape (fst p) @ ''='' @ query_escape (snd p)"

fun query_join :: "(string \<times> string) list \<Rightarrow> string" where
  "query_join [] = []"
| "query_join [p] = query_pair p"
| "query_join (p # ps) = query_pair p @ ''&'' @ query_join ps"

section \<open>Unescaping undoes escaping\<close>

lemma hex_val_hex_digit: "n < 16 \<Longrightarrow> hex_val (hex_digit n) = Some n"
proof -
  assume "n < 16"
  then have "n \<in> set [0..<16]" by simp
  then show ?thesis
    by (simp add: upt_rec hex_digit_def hex_val_def) (elim disjE; simp)
qed

lemma of_char_div16: "(of_char c :: nat) div 16 < 16"
  using nat_of_char_less_256 [of c] by (intro less_mult_imp_div_less) simp

lemma query_unescape_escape: "query_unescape (query_escape s) = Inr s"
proof (induction s)
  case Nil
  show ?case by simp
next
  case (Cons c r)
  show ?case
  proof (cases "query_unreserved c")
    case True
    then have "c \<noteq> CHR ''%'' \<and> c \<noteq> CHR ''+''"
      by (auto simp: query_unreserved_def Let_def)
    with True Cons.IH show ?thesis by simp
  next
    case False
    show ?thesis
    proof (cases "c = CHR '' ''")
      case True
      with False Cons.IH show ?thesis by simp
    next
      case sp: False
      have "hex_val (hex_digit (of_char c div 16)) = Some (of_char c div 16)"
        by (rule hex_val_hex_digit) (rule of_char_div16)
      moreover have "hex_val (hex_digit (of_char c mod 16)) = Some (of_char c mod 16)"
        by (rule hex_val_hex_digit) simp
      moreover have "char_of (16 * (of_char c div 16) + (of_char c :: nat) mod 16) = c"
        by simp
      ultimately show ?thesis
        using False sp Cons.IH by simp
    qed
  qed
qed

section \<open>Get returns the first value of a key\<close>

lemma values_add_lookup:
  "values_add m k' v' k =
     (if k = k' then Some ((case m k' of None \<Rightarrow> [] | Some vs \<Rightarrow> vs) @ [v']) else m k)"
  by (simp add: values_add_def)

lemma parse_query_segments_lookup:
  "fst (parse_query_segments segs m err) k =
     (if values_of k (segment_pairs segs) = [] then m k
      else Some ((case m k of None \<Rightarrow> [] | Some xs \<Rightarrow> xs) @ values_of k (segment_pairs segs)))"
proof (induction segs arbitrary: m err)
  case Nil
  show ?case by simp
next
  case (Cons seg segs)
  show ?case
  proof (cases "seg = []")
    case True
    with Cons.IH show ?thesis by simp
  next
    case False
    obtain k0 v0 where kv: "split_key_value seg = (k0, v0)" by fastforce
    show ?thesis
    proof (cases "query_unescape k0")
      case (Inl e)
      with False kv Cons.IH show ?thesis by simp
    next
      case (Inr k')
      show ?thesis
      proof (cases "query_unescape v0")
        case (Inl e)
        with False kv Inr Cons.IH show ?thesis by simp
      next
        case v: (Inr v')
        have lhs: "fst (parse_query_segments (seg # segs) m err) k =
              fst (parse_query_segments segs (values_add m k' v') err) k"
          using False kv Inr v by simp
        have rhs: "segment_pairs (seg # segs) = (k', v') # segment_pairs segs"
          using False kv Inr v by simp
        show ?thesis
          unfolding lhs rhs Cons.IH [of "values_add m k' v'" err]
          by (cases "k = k'") (simp_all add: values_add_lookup split: option.split)
      qed
    qed
  qed
qed

theorem values_get_first:
  "values_get (url_query q) k =
     (case values_of k (segment_pairs (query_segments q)) of [] \<Rightarrow> [] | v # _ \<Rightarrow> v)"
  by (simp add: values_get_def url_query_def parse_query_def parse_query_segments_lookup
      split: list.split)

section \<open>Joining pairs into a query and parsing it back\<close>

lemma hex_digit_in: "n < 16 \<Longrightarrow> hex_digit n \<in> set ''0123456789ABCDEF''"
  unfolding hex_digit_def by (rule nth_mem) simp

lemma hex_chars_ok: "c \<in> set ''0123456789ABCDEF'' \<Longrightarrow> \<not> is_query_sep c \<and> c \<noteq> CHR ''=''"
  by (auto simp: is_query_sep_def)

lemma unreserved_ok: "query_unreserved a \<Longrightarrow> \<not> is_query_sep a \<and> a \<noteq> CHR ''=''"
  by (auto simp: query_unreserved_def is_query_sep_def Let_def)

lemma query_escape_chars:
  "c \<in> set (query_escape s) \<Longrightarrow> \<not> is_query_sep c \<and> c \<noteq> CHR ''=''"
proof (induction s)
  case Nil
  then show ?case by simp
next
  case (Cons a r)
  show ?case
  proof (cases "c \<in> set (query_escape r)")
    case True
    then show ?thesis by (rule Cons.IH)
  next
    case False
    with Cons.prems have "c \<in> set (if query_unreserved a then [a] else if a = CHR '' '' then ''+''
        else [CHR ''%'', hex_digit (of_char a div 16), hex_digit (of_char a mod 16)])"
      by (simp del: query_escape.simps add: query_escape.simps(2) [of a r])
    then consider "query_unreserved a" "c = a"
      | "\<not> query_unreserved a" "a = CHR '' ''" "c = CHR ''+''"
      | "c = CHR ''%''"
      | "c = hex_digit (of_char a div 16)" | "c = hex_digit (of_char a mod 16)"
      by (cases "query_unreserved a"; cases "a = CHR '' ''") auto
    then show ?thesis
    proof cases
      case 1
      then show ?thesis by (simp add: unreserved_ok)
    next
      case 2
      then show ?thesis by (simp add: is_query_sep_def)
    next
      case 3
      then show ?thesis by (simp add: is_query_sep_def)
    next
      case 4
      have "hex_digit (of_char a div 16) \<in> set ''0123456789ABCDEF''"
        by (rule hex_digit_in) (rule of_char_div16)
      from hex_chars_ok [OF this] 4 show ?thesis by simp
    next
      case 5
      have "hex_digit (of_char a mod 16) \<in> set ''0123456789ABCDEF''"
        by (rule hex_digit_in) simp
      from hex_chars_ok [OF this] 5 show ?thesis by simp
    qed
  qed
qed

lemma query_segments_single:
  "x \<noteq> [] \<Longrightarrow> \<forall>c \<in> set x. \<not> is_query_sep c \<Longrightarrow> query_segments x = [x]"
proof (cases x)
  case (Cons a xs)
  assume "\<forall>c \<in> set x. \<not> is_query_sep c"
  with Cons have dw: "dropWhile (\<lambda>x. \<not> is_query_sep x) xs = []"
    and tw: "takeWhile (\<lambda>x. \<not> is_query_sep x) xs = xs"
    by (simp_all add: dropWhile_eq_Nil_conv takeWhile_eq_all_conv)
  from Cons \<open>\<forall>c \<in> set x. \<not> is_query_sep c\<close> show ?thesis by (simp add: dw tw)
qed simp

lemma query_segments_append:
  assumes "x \<noteq> []" "\<forall>c \<in> set x. \<not> is_query_sep c" "is_query_sep d"
  shows "query_segments (x @ d # rest) = x # query_segments rest"
proof (cases x)
  case Nil
  with assms show ?thesis by simp
next
  case (Cons a xs)
  have "takeWhile (\<lambda>x. \<not> is_query_sep x) (x @ d # rest) = x"
    using assms by simp
  moreover have "dropWhile (\<lambda>x. \<not> is_query_sep x) (x @ d # rest) = d # rest"
    using assms by simp
  ultimately show ?thesis
    using Cons by (metis append_Cons list.simps(5) query_segments.simps(2))
qed

lemma query_pair_facts:
  "query_pair p \<noteq> [] \<and> (\<forall>c \<in> set (query_pair p). \<not> is_query_sep c)"
  using query_escape_chars by (auto simp: query_pair_def is_query_sep_def)

lemma split_key_value_pair:
  "split_key_value (query_pair (k, v)) = (query_escape k, query_escape v)"
proof -
  have "\<forall>c \<in> set (query_escape k). c \<noteq> CHR ''=''"
    using query_escape_chars by blast
  then have "dropWhile (\<lambda>x. x \<noteq> CHR ''='') (query_pair (k, v)) = CHR ''='' # query_escape v"
    and "takeWhile (\<lambda>x. x \<noteq> CHR ''='') (query_pair (k, v)) = query_escape k"
    by (simp_all add: query_pair_def)
  then show ?thesis by (simp add: split_key_value_def)
qed

lemma segment_pair_decode:
  "segment_pairs (query_pair p # segs) = p # segment_pairs segs"
proof -
  obtain k v where p: "p = (k, v)" by fastforce
  have "query_pair p \<noteq> []" using query_pair_facts by blast
  with p show ?thesis by (simp add: split_key_value_pair query_unescape_escape)
qed

theorem query_join_roundtrip: "segment_pairs (query_segments (query_join ps)) = ps"
proof (induction ps rule: query_join.induct)
  case 1
  show ?case by simp
next
  case (2 p)
  have "query_segments (query_pair p) = [query_pair p]"
    using query_pair_facts by (blast intro: query_segments_single)
  then show ?case using segment_pair_decode [of p "[]"] by simp
next
  case (3 p q ps)
  have "query_segments (query_pair p @ CHR ''&'' # query_join (q # ps)) =
        query_pair p # query_segments (query_join (q # ps))"
    using query_pair_facts by (intro query_segments_append) (auto simp: is_query_sep_def)
  with "3.IH" show ?case
    using segment_pair_decode [of p "query_segments (query_join (q # ps))"] by simp
qed

corollary values_get_join:
  "values_get (url_query (query_join ps)) k = (case values_of k ps of [] \<Rightarrow> [] | v # _ \<Rightarrow> v)"
  by (simp add: values_get_first query_join_roundtrip)

end
