(* ===== verification/Http.thy ===== *)
theory Http
  imports Client UrlQuery
begin

text \<open>
  The HTTP side of a handler of package \<open>handlers\<close>: the request (raw query, body, and
  what the middleware bound into its context), the observable effects of a handler as a
  trace (log lines, calls into the client library, the rendered response) together with
  the library's state, and the helpers the handler calls: \<open>parseContext\<close>,
  \<open>ParseRequestBody\<close>, \<open>RenderError\<close>, \<open>render.NoContent\<close> and the request logger.
  These helpers live outside \<^verbatim>\<open>src/\<close>; they are modelled from the description of their
  contracts.
\<close>

section \<open>Status codes\<close>

definition StatusNoContent :: nat where "StatusNoContent = 204"
definition StatusBadRequest :: nat where "StatusBadRequest = 400"
definition StatusNotFound :: nat where "StatusNotFound = 404"
definition StatusInternalServerError :: nat where "StatusInternalServerError = 500"

declare StatusNoContent_def [handler_defs] StatusBadRequest_def [handler_defs]
  StatusNotFound_def [handler_defs] StatusInternalServerError_def [handler_defs]

section \<open>Requests, effects and the world\<close>

text \<open>A request: \<open>r.URL.RawQuery\<close>, the body bytes, and the client \<open>'h\<close> and request
  context \<open>'x\<close> that the middleware stored in \<open>r.Context()\<close>, if it did.\<close>

record ('h, 'x) request =
  req_raw_query :: string
  req_body :: string
  ctx_client :: "'h option"
  ctx_optly :: "'x option"

datatype log_level = DebugLevel | InfoLevel | WarnLevel | ErrorLevel

text \<open>A structured log line: level, key/value fields in the order they were added, message.\<close>

record log_entry =
  log_level :: log_level
  log_fields :: "(string \<times> string) list"
  log_msg :: string

text \<open>What a handler does that can be observed, in order: a log line, a call of the
  client's \<open>Track\<close>, and a rendered response (status and JSON body; \<open>None\<close> for no
  body).\<close>

datatype effect =
    Logged log_entry
  | TrackCalled string user_context "json go_map"
  | Rendered nat "json option"

text \<open>The world a handler runs in: the client library's state and the trace so far.\<close>

record 's world =
  sdk :: 's
  trace :: "effect list"

definition emit :: "effect \<Rightarrow> 's world \<Rightarrow> 's world" where
  "emit e w = w\<lparr>trace := trace w @ [e]\<rparr>"

section \<open>Helpers of package handlers\<close>

text \<open>\<open>parseContext(r)\<close>: the client and the request context from \<open>r.Context()\<close>;
  an error when the middleware bound either of them.\<close>

definition parse_context :: "('h, 'x) request \<Rightarrow> go_error + ('h \<times> 'x)" where
  "parse_context r =
    (case ctx_client r of
       None \<Rightarrow> Inl (ErrorString ''optlyClient not available'')
     | Some c \<Rightarrow> (case ctx_optly r of
                   None \<Rightarrow> Inl (ErrorString ''optlyContext not available'')
                 | Some x \<Rightarrow> Inr (c, x)))"

text \<open>\<open>ParseRequestBody(r, v)\<close>: the body read and unmarshalled into the target with
  the decoder of its Go type.\<close>

definition parse_request_body :: "(json \<Rightarrow> go_error + 'a) \<Rightarrow> ('h, 'x) request \<Rightarrow> go_error + 'a" where
  "parse_request_body dec r = json_unmarshal dec (req_body r)"

text \<open>\<open>RenderError(err, status, w, r)\<close>: the status and the JSON body
  \<open>ErrorResponse{Error: err.Error()}\<close>, i.e. \<open>{"error": ...}\<close>.\<close>

definition error_body :: "go_error \<Rightarrow> json" where
  "error_body err = JObj [(''error'', JStr (error_string err))]"

definition render_error :: "go_error \<Rightarrow> nat \<Rightarrow> 's world \<Rightarrow> 's world" where
  "render_error err status w = emit (Rendered status (Some (error_body err))) w"

text \<open>\<open>render.NoContent(w, r)\<close>: status 204, no body.\<close>

definition render_no_content :: "'s world \<Rightarrow> 's world" where
  "render_no_content w = emit (Rendered StatusNoContent None) w"

text \<open>\<open>middleware.GetLogger(r).Level()...Msg(msg)\<close>: one log line.\<close>

definition log_event :: "log_level \<Rightarrow> (string \<times> string) list \<Rightarrow> string \<Rightarrow> 's world \<Rightarrow> 's world" where
  "log_event lvl kvs msg w = emit (Logged \<lparr>log_level = lvl, log_fields = kvs, log_msg = msg\<rparr>) w"

declare emit_def [handler_defs] render_error_def [handler_defs] render_no_content_def [handler_defs]
  log_event_def [handler_defs] error_body_def [handler_defs]

section \<open>Reading a trace\<close>

fun responses :: "effect list \<Rightarrow> (nat \<times> json option) list" where
  "responses [] = []"
| "responses (Rendered st b # es) = (st, b) # responses es"
| "responses (_ # es) = responses es"

fun track_calls :: "effect list \<Rightarrow> (string \<times> user_context \<times> json go_map) list" where
  "track_calls [] = []"
| "track_calls (TrackCalled k uc tags # es) = (k, uc, tags) # track_calls es"
| "track_calls (_ # es) = track_calls es"

fun log_lines :: "effect list \<Rightarrow> log_entry list" where
  "log_lines [] = []"
| "log_lines (Logged l # es) = l # log_lines es"
| "log_lines (_ # es) = log_lines es"

lemma responses_append [simp]: "responses (xs @ ys) = responses xs @ responses ys"
  by (induction xs rule: responses.induct) auto

lemma track_calls_append [simp]: "track_calls (xs @ ys) = track_calls xs @ track_calls ys"
  by (induction xs rule: track_calls.induct) auto

lemma log_lines_append [simp]: "log_lines (xs @ ys) = log_lines xs @ log_lines ys"
  by (induction xs rule: log_lines.induct) auto

lemma TrackCalled_in_track_calls:
  "TrackCalled k uc tags \<in> set es \<Longrightarrow> (k, uc, tags) \<in> set (track_calls es)"
  by (induction es rule: track_calls.induct) auto

text \<open>The helpers only append to the trace and leave the library's state alone.\<close>

lemma helpers_sdk [simp]:
  "sdk (emit e w) = sdk w" "sdk (render_error err st w) = sdk w"
  "sdk (render_no_content w) = sdk w" "sdk (log_event lvl fs m w) = sdk w"
  by (simp_all add: handler_defs)

lemma helpers_trace [simp]:
  "trace (emit e w) = trace w @ [e]"
  "trace (render_error err st w) = trace w @ [Rendered st (Some (error_body err))]"
  "trace (render_no_content w) = trace w @ [Rendered StatusNoContent None]"
  "trace (log_event lvl fs m w) = trace w @ [Logged \<lparr>log_level = lvl, log_fields = fs, log_msg = m\<rparr>]"
  by (simp_all add: emit_def render_error_def render_no_content_def log_event_def)

lemma parse_context_Inr:
  "parse_context r = Inr (c, x) \<longleftrightarrow> ctx_client r = Some c \<and> ctx_optly r = Some x"
  by (auto simp: parse_context_def split: option.splits)

end
