(* ===== verification/Track.thy ===== *)
theory Track
  imports Http
begin

text \<open>
  The handler of \<^verbatim>\<open>src/pkg/handlers/track.go\<close>: the request body type \<open>trackBody\<close>
  (with the field descriptors \<open>encoding/json\<close> sees through reflection, and its decoder),
  and \<open>TrackEvent\<close> as one function from a request and a world to a world, with its
  guards and early returns in the order of the source. The lemmas give the result of each
  of its five outcomes and the facts every run shares.
\<close>

section \<open>The request body\<close>

text \<open>\<open>type trackBody struct { userID string; userAttributes map[string]interface{};
  eventTags map[string]interface{} }\<close> (track.go, lines 30--34).\<close>

record trackBody =
  userID :: string
  userAttributes :: "json go_map"
  eventTags :: "json go_map"

text \<open>The same struct as \<open>reflect\<close> sees it: three fields, all starting with a
  lower-case letter, hence unexported, and none with a \<open>json\<close> tag.\<close>

definition trackBody_fields :: "go_field list" where
  "trackBody_fields =
    [\<lparr>field_name = ''userID'', field_exported = False, field_tag = None\<rparr>,
     \<lparr>field_name = ''userAttributes'', field_exported = False, field_tag = None\<rparr>,
     \<lparr>field_name = ''eventTags'', field_exported = False, field_tag = None\<rparr>]"

text \<open>\<open>var body trackBody\<close>: the zero value.\<close>

definition trackBody_zero :: trackBody where
  "trackBody_zero = \<lparr>userID = [], userAttributes = None, eventTags = None\<rparr>"

text \<open>How a decoded member is stored into the field it selected, by the field's Go type.\<close>

definition set_trackBody_field :: "go_field \<Rightarrow> json \<Rightarrow> trackBody \<Rightarrow> go_error + trackBody" where
  "set_trackBody_field f j b =
    (if field_name f = ''userID'' then
       map_sum id (\<lambda>s. b\<lparr>userID := s\<rparr>) (set_string_field ''trackBody.userID'' j (userID b))
     else if field_name f = ''userAttributes'' then
       map_sum id (\<lambda>m. b\<lparr>userAttributes := m\<rparr>)
         (set_map_field ''trackBody.userAttributes'' j (userAttributes b))
     else if field_name f = ''eventTags'' then
       map_sum id (\<lambda>m. b\<lparr>eventTags := m\<rparr>) (set_map_field ''trackBody.eventTags'' j (eventTags b))
     else Inr b)"

text \<open>\<open>json.Unmarshal\<close> into \<open>&body\<close>, starting from the zero value.\<close>

definition decode_trackBody :: "json \<Rightarrow> go_error + trackBody" where
  "decode_trackBody j =
     decode_struct trackBody_fields set_trackBody_field ''handlers.trackBody'' trackBody_zero j"

section \<open>TrackEvent\<close>

text \<open>\<open>fmt.Errorf("missing required path parameter: eventKey")\<close> (line 53).\<close>

definition missing_event_key_error :: go_error where
  "missing_event_key_error = ErrorString ''missing required path parameter: eventKey''"

text \<open>\<open>entities.UserContext{ID: body.userID, Attributes: body.userAttributes}\<close>
  (lines 58--61).\<close>

definition track_user_context :: "trackBody \<Rightarrow> user_context" where
  "track_user_context body = \<lparr>uc_id = userID body, uc_attributes = userAttributes body\<rparr>"

text \<open>
  \<open>TrackEvent(w, r)\<close> (lines 37--72): resolve the client (500 on failure), parse the body
  (400), read \<open>eventKey\<close> from the query (400 when empty), call \<open>Track\<close> once, then log at
  error level and render 404 on failure, or log at debug level and render 204.
\<close>

definition track_event :: "('h, 's) track_fn \<Rightarrow> ('h, 'x) request \<Rightarrow> 's world \<Rightarrow> 's world" where
  "track_event track r w =
    (case parse_context r of
       Inl err \<Rightarrow> render_error err StatusInternalServerError w
     | Inr (optlyClient, _) \<Rightarrow>
         (case parse_request_body decode_trackBody r of
            Inl err \<Rightarrow> render_error err StatusBadRequest w
          | Inr body \<Rightarrow>
              (let eventKey = values_get (url_query (req_raw_query r)) ''eventKey'' in
               if eventKey = [] then render_error missing_event_key_error StatusBadRequest w
               else
                 (let uc = track_user_context body;
                      (err, s') = track optlyClient eventKey uc (eventTags body) (sdk w);
                      w1 = emit (TrackCalled eventKey uc (eventTags body)) (w\<lparr>sdk := s'\<rparr>)
                  in case err of
                       Some e \<Rightarrow>
                         render_error e StatusNotFound
                           (log_event ErrorLevel [(''error'', error_string e), (''eventKey'', eventKey)]
                              ''error tracking event'' w1)
                     | None \<Rightarrow>
                         render_no_content
                           (log_event DebugLevel [(''eventKey'', eventKey)] ''tracking event'' w1)))))"

text \<open>The effects of one request on its own: the handler run from an empty trace.\<close>

definition track_effects :: "('h, 's) track_fn \<Rightarrow> ('h, 'x) request \<Rightarrow> 's \<Rightarrow> effect list" where
  "track_effects track r s = trace (track_event track r \<lparr>sdk = s, trace = []\<rparr>)"

section \<open>Decoding the body\<close>

lemma trackBody_fields_unexported: "\<forall>f \<in> set trackBody_fields. \<not> field_exported f"
  by (simp add: trackBody_fields_def)

text \<open>The decoder on each kind of value: objects and \<open>null\<close> leave the zero value, the
  other kinds are type errors.\<close>

lemma decode_trackBody_eq:
  "decode_trackBody j =
    (case j of JObj _ \<Rightarrow> Inr trackBody_zero | JNull \<Rightarrow> Inr trackBody_zero
     | _ \<Rightarrow> Inl (JsonUnmarshalTypeError (json_kind j) None ''handlers.trackBody''))"
  unfolding decode_trackBody_def
  by (rule decode_struct_unexported [OF trackBody_fields_unexported])

lemma parse_body_zero:
  "parse_request_body decode_trackBody r = Inr b \<Longrightarrow> b = trackBody_zero"
  by (auto simp: parse_request_body_def json_unmarshal_eq decode_trackBody_eq
      split: option.splits json.splits)

text \<open>The body check on the parsed JSON: objects and \<open>null\<close> are accepted as the zero
  value, anything else is refused with the error \<open>json.Unmarshal\<close> returns.\<close>

lemma parse_body_cases:
  "parse_request_body decode_trackBody r =
    (case json_parse (req_body r) of
       None \<Rightarrow> Inl (JsonSyntaxError (the (check_valid (req_body r))))
     | Some (JObj _) \<Rightarrow> Inr trackBody_zero
     | Some JNull \<Rightarrow> Inr trackBody_zero
     | Some j \<Rightarrow> Inl (JsonUnmarshalTypeError (json_kind j) None ''handlers.trackBody''))"
  by (simp add: parse_request_body_def json_unmarshal_eq decode_trackBody_eq
      split: option.split json.split)

section \<open>The five outcomes\<close>

lemma track_event_context_fail:
  "parse_context r = Inl e \<Longrightarrow> track_event tr r w = render_error e StatusInternalServerError w"
  by (simp add: track_event_def)

lemma track_event_body_fail:
  "parse_context r = Inr (h, x) \<Longrightarrow> parse_request_body decode_trackBody r = Inl e \<Longrightarrow>
     track_event tr r w = render_error e StatusBadRequest w"
  by (simp add: track_event_def)

lemma track_event_key_empty:
  "parse_context r = Inr (h, x) \<Longrightarrow> parse_request_body decode_trackBody r = Inr b \<Longrightarrow>
     values_get (url_query (req_raw_query r)) ''eventKey'' = [] \<Longrightarrow>
     track_event tr r w = render_error missing_event_key_error StatusBadRequest w"
  by (simp add: track_event_def)

lemma track_event_called:
  assumes "parse_context r = Inr (h, x)" "parse_request_body decode_trackBody r = Inr b"
    "values_get (url_query (req_raw_query r)) ''eventKey'' = k" "k \<noteq> []"
    "tr h k (track_user_context b) (eventTags b) (sdk w) = (res, s')"
  shows "track_event tr r w =
    (let w1 = emit (TrackCalled k (track_user_context b) (eventTags b)) (w\<lparr>sdk := s'\<rparr>) in
     case res of
       Some e \<Rightarrow> render_error e StatusNotFound
                  (log_event ErrorLevel [(''error'', error_string e), (''eventKey'', k)]
                     ''error tracking event'' w1)
     | None \<Rightarrow> render_no_content (log_event DebugLevel [(''eventKey'', k)] ''tracking event'' w1))"
  using assms by (simp add: track_event_def Let_def)

text \<open>Case analysis on a run, one case per outcome of the source: a property of the
  final world holds when it holds in each of the five branches.\<close>

lemma track_event_split [case_names no_client bad_body no_key called]:
  assumes ctx: "\<And>e. parse_context r = Inl e \<Longrightarrow> P (render_error e StatusInternalServerError w)"
    and body: "\<And>h x e. parse_context r = Inr (h, x) \<Longrightarrow>
      parse_request_body decode_trackBody r = Inl e \<Longrightarrow> P (render_error e StatusBadRequest w)"
    and nokey: "\<And>h x b. parse_context r = Inr (h, x) \<Longrightarrow> parse_request_body decode_trackBody r = Inr b \<Longrightarrow>
      values_get (url_query (req_raw_query r)) ''eventKey'' = [] \<Longrightarrow>
      P (render_error missing_event_key_error StatusBadRequest w)"
    and called: "\<And>h x b k res s'. parse_context r = Inr (h, x) \<Longrightarrow>
      parse_request_body decode_trackBody r = Inr b \<Longrightarrow>
      values_get (url_query (req_raw_query r)) ''eventKey'' = k \<Longrightarrow> k \<noteq> [] \<Longrightarrow>
      tr h k (track_user_context b) (eventTags b) (sdk w) = (res, s') \<Longrightarrow>
      P \<lparr>sdk = s', trace = trace w @ TrackCalled k (track_user_context b) (eventTags b) #
         (case res of
            Some e \<Rightarrow> [Logged \<lparr>log_level = ErrorLevel,
                         log_fields = [(''error'', error_string e), (''eventKey'', k)],
                         log_msg = ''error tracking event''\<rparr>,
                       Rendered StatusNotFound (Some (error_body e))]
          | None \<Rightarrow> [Logged \<lparr>log_level = DebugLevel, log_fields = [(''eventKey'', k)],
                         log_msg = ''tracking event''\<rparr>,
                     Rendered StatusNoContent None])\<rparr>"
  shows "P (track_event tr r w)"
proof (cases "parse_context r")
  case (Inl e)
  then show ?thesis using ctx by (simp add: track_event_context_fail)
next
  case (Inr hx)
  obtain h x where hx: "parse_context r = Inr (h, x)" using Inr by (cases hx) simp
  show ?thesis
  proof (cases "parse_request_body decode_trackBody r")
    case (Inl e)
    with hx body show ?thesis by (simp add: track_event_body_fail)
  next
    case b: (Inr b)
    show ?thesis
    proof (cases "values_get (url_query (req_raw_query r)) ''eventKey'' = []")
      case True
      with hx b nokey show ?thesis by (simp add: track_event_key_empty)
    next
      case False
      obtain res s' where call: "tr h (values_get (url_query (req_raw_query r)) ''eventKey'')
          (track_user_context b) (eventTags b) (sdk w) = (res, s')" by fastforce
      have "track_event tr r w = \<lparr>sdk = s', trace = trace w @
          TrackCalled (values_get (url_query (req_raw_query r)) ''eventKey'') (track_user_context b)
            (eventTags b) #
         (case res of
            Some e \<Rightarrow> [Logged \<lparr>log_level = ErrorLevel,
                         log_fields = [(''error'', error_string e),
                                       (''eventKey'', values_get (url_query (req_raw_query r)) ''eventKey'')],
                         log_msg = ''error tracking event''\<rparr>,
                       Rendered StatusNotFound (Some (error_body e))]
          | None \<Rightarrow> [Logged \<lparr>log_level = DebugLevel,
                         log_fields = [(''eventKey'', values_get (url_query (req_raw_query r)) ''eventKey'')],
                         log_msg = ''tracking event''\<rparr>,
                     Rendered StatusNoContent None])\<rparr>"
        using track_event_called [where tr = tr and w = w and res = res and s' = s',
          OF hx b refl False call]
        by (cases res) (simp_all add: handler_defs)
      with called [OF hx b refl False call] show ?thesis by simp
    qed
  qed
qed

text \<open>Every run appends to the trace exactly one of five effect sequences.\<close>

lemma track_event_trace_cases:
  "\<exists>es. trace (track_event tr r w) = trace w @ es \<and>
     ((\<exists>e. es = [Rendered StatusInternalServerError (Some (error_body e))]) \<or>
      (\<exists>e. es = [Rendered StatusBadRequest (Some (error_body e))]) \<or>
      (\<exists>k uc tags e. es = [TrackCalled k uc tags,
          Logged \<lparr>log_level = ErrorLevel, log_fields = [(''error'', error_string e), (''eventKey'', k)],
                  log_msg = ''error tracking event''\<rparr>,
          Rendered StatusNotFound (Some (error_body e))]) \<or>
      (\<exists>k uc tags. es = [TrackCalled k uc tags,
          Logged \<lparr>log_level = DebugLevel, log_fields = [(''eventKey'', k)], log_msg = ''tracking event''\<rparr>,
          Rendered StatusNoContent None]))"
  by (rule track_event_split) (auto simp: handler_defs split: option.split)

text \<open>Which \<open>Track\<close> call a run makes: none unless the client is bound, the body is
  accepted and the key is not empty; then exactly one, with the key, the user context
  built from the body and the body's tags.\<close>

lemma track_event_calls_eq:
  "track_calls (trace (track_event tr r w)) = track_calls (trace w) @
    (case parse_context r of
       Inl _ \<Rightarrow> []
     | Inr _ \<Rightarrow> (case parse_request_body decode_trackBody r of
                  Inl _ \<Rightarrow> []
                | Inr b \<Rightarrow> (let k = values_get (url_query (req_raw_query r)) ''eventKey'' in
                            if k = [] then [] else [(k, track_user_context b, eventTags b)])))"
  by (rule track_event_split) (simp_all split: option.split)

text \<open>The client library's state after a run: unchanged, or the state one \<open>Track\<close> call
  returned.\<close>

lemma track_event_sdk:
  "sdk (track_event tr r w) = sdk w \<or>
   (\<exists>h k uc tags. sdk (track_event tr r w) = snd (tr h k uc tags (sdk w)))"
  by (rule track_event_split; simp; metis snd_conv)

section \<open>Properties of TrackEvent\<close>

text \<open>
  C1. A request whose client and context are bound, whose body is accepted and whose
  query has a non-empty \<open>eventKey\<close>, and for which \<open>Track\<close> succeeds, calls \<open>Track\<close> once,
  logs one debug line with the event key, and is answered 204 with no body, in that
  order; the client library's state is the one \<open>Track\<close> returned.
\<close>

theorem track_event_success:
  assumes "ctx_client r = Some h" and "ctx_optly r = Some x"
    and "parse_request_body decode_trackBody r = Inr b"
    and "values_get (url_query (req_raw_query r)) ''eventKey'' = k" and "k \<noteq> []"
    and "tr h k (track_user_context b) (eventTags b) (sdk w) = (None, s')"
  shows "track_event tr r w =
    \<lparr>sdk = s', trace = trace w @
       [TrackCalled k (track_user_context b) (eventTags b),
        Logged \<lparr>log_level = DebugLevel, log_fields = [(''eventKey'', k)], log_msg = ''tracking event''\<rparr>,
        Rendered 204 None]\<rparr>"
proof -
  from assms(1,2) have "parse_context r = Inr (h, x)" by (simp add: parse_context_Inr)
  from track_event_called [where tr = tr and w = w, OF this assms(3-6)] show ?thesis
    by (simp add: handler_defs)
qed

theorem track_event_success_witness:
  "track_event queue_track
     \<lparr>req_raw_query = ''eventKey=purchase'', req_body = ''{}'', ctx_client = Some (), ctx_optly = Some ()\<rparr>
     \<lparr>sdk = \<lparr>eq_known = [''purchase''], eq_events = []\<rparr>, trace = []\<rparr> =
   \<lparr>sdk = \<lparr>eq_known = [''purchase''],
            eq_events = [(''purchase'', \<lparr>uc_id = [], uc_attributes = None\<rparr>, None)]\<rparr>,
    trace = [TrackCalled ''purchase'' \<lparr>uc_id = [], uc_attributes = None\<rparr> None,
             Logged \<lparr>log_level = DebugLevel, log_fields = [(''eventKey'', ''purchase'')],
                     log_msg = ''tracking event''\<rparr>,
             Rendered 204 None]\<rparr>"
proof -
  have body: "parse_request_body decode_trackBody
      \<lparr>req_raw_query = ''eventKey=purchase'', req_body = ''{}'', ctx_client = Some (), ctx_optly = Some ()\<rparr>
      = Inr trackBody_zero"
    by (simp add: parse_request_body_def json_unmarshal_eq decode_trackBody_eq scan_defs)
  have key: "values_get (url_query ''eventKey=purchase'') ''eventKey'' = ''purchase''"
    by (simp add: values_get_def url_query_def parse_query_def split_key_value_def
        is_query_sep_def values_add_def)
  show ?thesis
    using track_event_success [where r = "\<lparr>req_raw_query = ''eventKey=purchase'', req_body = ''{}'',
        ctx_client = Some (), ctx_optly = Some ()\<rparr>" and h = "()" and x = "()" and b = trackBody_zero
      and k = "''purchase''" and tr = queue_track
      and w = "\<lparr>sdk = \<lparr>eq_known = [''purchase''], eq_events = []\<rparr>, trace = []\<rparr>"
      and s' = "\<lparr>eq_known = [''purchase''],
                 eq_events = [(''purchase'', \<lparr>uc_id = [], uc_attributes = None\<rparr>, None)]\<rparr>"]
    by (simp add: body key queue_track_def trackBody_zero_def track_user_context_def)
qed

text \<open>
  C2. Whatever the body says, every call of \<open>Track\<close> the handler makes carries the user
  context with the empty ID and nil attributes, and nil event tags: the fields of
  \<open>trackBody\<close> are unexported, so \<open>json.Unmarshal\<close> never sets them and the body stays at
  its zero value.
\<close>

theorem track_event_user_context_empty:
  assumes "TrackCalled k uc tags \<in> set (track_effects tr r s)"
  shows "uc = \<lparr>uc_id = [], uc_attributes = None\<rparr> \<and> tags = None"
proof -
  from assms have calls: "(k, uc, tags) \<in> set (track_calls (track_effects tr r s))"
    by (rule TrackCalled_in_track_calls)
  show ?thesis
  proof (cases "parse_context r")
    case (Inl e)
    with calls show ?thesis by (simp add: track_effects_def track_event_calls_eq)
  next
    case ctx: (Inr hx)
    show ?thesis
    proof (cases "parse_request_body decode_trackBody r")
      case (Inl e)
      with ctx calls show ?thesis by (simp add: track_effects_def track_event_calls_eq)
    next
      case body: (Inr b)
      with ctx calls have "uc = track_user_context b \<and> tags = eventTags b"
        by (simp add: track_effects_def track_event_calls_eq Let_def split: if_splits)
      with parse_body_zero [OF body] show ?thesis
        by (simp add: track_user_context_def trackBody_zero_def)
    qed
  qed
qed

theorem track_event_user_context_empty_witness:
  \<open>TrackCalled ''purchase'' \<lparr>uc_id = [], uc_attributes = None\<rparr> None \<in> set (track_effects queue_track
     \<lparr>req_raw_query = ''eventKey=purchase'',
      req_body = ''{"userID":"u1","userAttributes":{},"eventTags":{"revenue":10}}'',
      ctx_client = Some (), ctx_optly = Some ()\<rparr>
     \<lparr>eq_known = [''purchase''], eq_events = []\<rparr>) \<and>
   \<lparr>uc_id = [], uc_attributes = None\<rparr> = \<lparr>uc_id = [], uc_attributes = None\<rparr> \<and> (None :: json go_map) = None\<close>
proof -
  have body: \<open>parse_request_body decode_trackBody
      \<lparr>req_raw_query = ''eventKey=purchase'',
       req_body = ''{"userID":"u1","userAttributes":{},"eventTags":{"revenue":10}}'',
       ctx_client = Some (), ctx_optly = Some ()\<rparr> = Inr trackBody_zero\<close>
    by (simp add: parse_request_body_def json_unmarshal_eq decode_trackBody_eq scan_defs)
  have key: "values_get (url_query ''eventKey=purchase'') ''eventKey'' = ''purchase''"
    by (simp add: values_get_def url_query_def parse_query_def split_key_value_def
        is_query_sep_def values_add_def)
  have run: \<open>TrackCalled ''purchase'' \<lparr>uc_id = [], uc_attributes = None\<rparr> None \<in> set (track_effects queue_track
     \<lparr>req_raw_query = ''eventKey=purchase'',
      req_body = ''{"userID":"u1","userAttributes":{},"eventTags":{"revenue":10}}'',
      ctx_client = Some (), ctx_optly = Some ()\<rparr>
     \<lparr>eq_known = [''purchase''], eq_events = []\<rparr>)\<close>
    using track_event_called [where r = \<open>\<lparr>req_raw_query = ''eventKey=purchase'',
        req_body = ''{"userID":"u1","userAttributes":{},"eventTags":{"revenue":10}}'',
        ctx_client = Some (), ctx_optly = Some ()\<rparr>\<close> and h = "()" and x = "()" and b = trackBody_zero
      and k = "''purchase''" and tr = queue_track
      and w = "\<lparr>sdk = \<lparr>eq_known = [''purchase''], eq_events = []\<rparr>, trace = []\<rparr>"
      and res = None
      and s' = "\<lparr>eq_known = [''purchase''],
                 eq_events = [(''purchase'', \<lparr>uc_id = [], uc_attributes = None\<rparr>, None)]\<rparr>"]
    by (simp add: body key track_effects_def parse_context_def queue_track_def trackBody_zero_def
        track_user_context_def handler_defs)
  from track_event_user_context_empty [OF run] run show ?thesis by simp
qed

text \<open>
  C3. When the client and context are bound, the body is accepted and \<open>eventKey\<close> is
  not empty, but \<open>Track\<close> returns an error, the handler calls \<open>Track\<close> once, logs one
  error-level line carrying the error and the event key, and answers 404 with the error
  body \<open>{"error": err.Error()}\<close>, in that order.
\<close>

theorem track_event_track_failure:
  assumes "ctx_client r = Some h" and "ctx_optly r = Some x"
    and "parse_request_body decode_trackBody r = Inr b"
    and "values_get (url_query (req_raw_query r)) ''eventKey'' = k" and "k \<noteq> []"
    and "tr h k (track_user_context b) (eventTags b) (sdk w) = (Some e, s')"
  shows "track_event tr r w =
    \<lparr>sdk = s', trace = trace w @
       [TrackCalled k (track_user_context b) (eventTags b),
        Logged \<lparr>log_level = ErrorLevel, log_fields = [(''error'', error_string e), (''eventKey'', k)],
                log_msg = ''error tracking event''\<rparr>,
        Rendered 404 (Some (JObj [(''error'', JStr (error_string e))]))]\<rparr>"
proof -
  from assms(1,2) have "parse_context r = Inr (h, x)" by (simp add: parse_context_Inr)
  from track_event_called [where tr = tr and w = w, OF this assms(3-6)] show ?thesis
    by (simp add: handler_defs)
qed

theorem track_event_track_failure_witness:
  "track_event queue_track
     \<lparr>req_raw_query = ''eventKey=signup'', req_body = ''{}'', ctx_client = Some (), ctx_optly = Some ()\<rparr>
     \<lparr>sdk = \<lparr>eq_known = [''purchase''], eq_events = []\<rparr>, trace = []\<rparr> =
   \<lparr>sdk = \<lparr>eq_known = [''purchase''], eq_events = []\<rparr>,
    trace = [TrackCalled ''signup'' \<lparr>uc_id = [], uc_attributes = None\<rparr> None,
             Logged \<lparr>log_level = ErrorLevel,
                     log_fields = [(''error'', ''event not found: signup''), (''eventKey'', ''signup'')],
                     log_msg = ''error tracking event''\<rparr>,
             Rendered 404 (Some (JObj [(''error'', JStr ''event not found: signup'')]))]\<rparr>"
proof -
  have body: "parse_request_body decode_trackBody
      \<lparr>req_raw_query = ''eventKey=signup'', req_body = ''{}'', ctx_client = Some (), ctx_optly = Some ()\<rparr>
      = Inr trackBody_zero"
    by (simp add: parse_body_cases scan_defs)
  have key: "values_get (url_query ''eventKey=signup'') ''eventKey'' = ''signup''"
    by (simp add: values_get_def url_query_def parse_query_def split_key_value_def
        is_query_sep_def values_add_def)
  show ?thesis
    using track_event_track_failure [where r = "\<lparr>req_raw_query = ''eventKey=signup'', req_body = ''{}'',
        ctx_client = Some (), ctx_optly = Some ()\<rparr>" and h = "()" and x = "()" and b = trackBody_zero
      and k = "''signup''" and tr = queue_track and e = "ErrorString ''event not found: signup''"
      and w = "\<lparr>sdk = \<lparr>eq_known = [''purchase''], eq_events = []\<rparr>, trace = []\<rparr>"
      and s' = "\<lparr>eq_known = [''purchase''], eq_events = []\<rparr>"]
    by (simp add: body key queue_track_def trackBody_zero_def track_user_context_def)
qed

text \<open>
  C4. When the client and context are bound and the body is accepted but the query has
  no non-empty \<open>eventKey\<close>, the handler answers 400 with the message
  \<open>missing required path parameter: eventKey\<close>, makes no \<open>Track\<close> call, logs nothing and
  leaves the client library's state alone.
\<close>

theorem track_event_missing_event_key:
  assumes "ctx_client r = Some h" and "ctx_optly r = Some x"
    and "parse_request_body decode_trackBody r = Inr b"
    and "values_get (url_query (req_raw_query r)) ''eventKey'' = []"
  shows "track_event tr r w = w\<lparr>trace := trace w @
    [Rendered 400 (Some (JObj [(''error'', JStr ''missing required path parameter: eventKey'')]))]\<rparr>"
proof -
  from assms(1,2) have "parse_context r = Inr (h, x)" by (simp add: parse_context_Inr)
  from track_event_key_empty [OF this assms(3,4)] show ?thesis
    by (simp add: handler_defs missing_event_key_error_def)
qed

theorem track_event_missing_event_key_witness:
  "track_event queue_track
     \<lparr>req_raw_query = ''eventKey='', req_body = ''{}'', ctx_client = Some (), ctx_optly = Some ()\<rparr>
     \<lparr>sdk = \<lparr>eq_known = [''purchase''], eq_events = []\<rparr>, trace = []\<rparr> =
   \<lparr>sdk = \<lparr>eq_known = [''purchase''], eq_events = []\<rparr>,
    trace = [Rendered 400 (Some (JObj [(''error'', JStr ''missing required path parameter: eventKey'')]))]\<rparr>"
proof -
  have body: "parse_request_body decode_trackBody
      \<lparr>req_raw_query = ''eventKey='', req_body = ''{}'', ctx_client = Some (), ctx_optly = Some ()\<rparr>
      = Inr trackBody_zero"
    by (simp add: parse_body_cases scan_defs)
  have key: "values_get (url_query ''eventKey='') ''eventKey'' = []"
    by (simp add: values_get_def url_query_def parse_query_def split_key_value_def
        is_query_sep_def values_add_def)
  show ?thesis
    using track_event_missing_event_key [where r = "\<lparr>req_raw_query = ''eventKey='', req_body = ''{}'',
        ctx_client = Some (), ctx_optly = Some ()\<rparr>" and h = "()" and x = "()" and b = trackBody_zero
      and tr = queue_track and w = "\<lparr>sdk = \<lparr>eq_known = [''purchase''], eq_events = []\<rparr>, trace = []\<rparr>"]
    by (simp add: body key)
qed

text \<open>
  C5. When the client and context are bound but the body is not one JSON value, the
  handler answers 400 with the \<open>SyntaxError\<close> of Go's scanner, its message as
  \<open>checkValid\<close> produces it, whatever the query says: the body is checked before the
  event key. No \<open>Track\<close> call is made, nothing is logged and the client library's state
  is unchanged.
\<close>

theorem track_event_malformed_body:
  assumes "ctx_client r = Some h" and "ctx_optly r = Some x"
    and "check_valid (req_body r) = Some msg"
  shows "track_event tr r w =
    w\<lparr>trace := trace w @ [Rendered 400 (Some (error_body (JsonSyntaxError msg)))]\<rparr>"
proof -
  from assms(1,2) have "parse_context r = Inr (h, x)" by (simp add: parse_context_Inr)
  moreover from assms(3) have "parse_request_body decode_trackBody r = Inl (JsonSyntaxError msg)"
    by (simp add: parse_request_body_def json_unmarshal_syntax_error)
  ultimately show ?thesis by (simp add: track_event_body_fail handler_defs)
qed

theorem track_event_malformed_body_witness:
  "check_valid ''{'' = Some ''unexpected end of JSON input'' \<and>
   track_event queue_track
     \<lparr>req_raw_query = [], req_body = ''{'', ctx_client = Some (), ctx_optly = Some ()\<rparr>
     \<lparr>sdk = \<lparr>eq_known = [], eq_events = []\<rparr>, trace = []\<rparr> =
   \<lparr>sdk = \<lparr>eq_known = [], eq_events = []\<rparr>,
    trace = [Rendered 400 (Some (JObj [(''error'', JStr ''unexpected end of JSON input'')]))]\<rparr>"
proof -
  have scan: "check_valid ''{'' = Some ''unexpected end of JSON input''"
    by (simp add: scan_step_defs scan_defs)
  show ?thesis
    using track_event_malformed_body [where r = "\<lparr>req_raw_query = [], req_body = ''{'',
        ctx_client = Some (), ctx_optly = Some ()\<rparr>" and h = "()" and x = "()" and tr = queue_track
      and w = "\<lparr>sdk = \<lparr>eq_known = [], eq_events = []\<rparr>, trace = []\<rparr>"]
    by (simp add: scan handler_defs)
qed

text \<open>
  C6. When the middleware bound no client, or no request context, the handler answers 500
  with the error of \<open>parseContext\<close>, before it looks at the body or the query; no
  \<open>Track\<close> call is made and nothing is logged.
\<close>

theorem track_event_no_context:
  assumes "ctx_client r = None \<or> ctx_optly r = None"
  shows "track_event tr r w = w\<lparr>trace := trace w @
    [Rendered 500 (Some (error_body (ErrorString
       (if ctx_client r = None then ''optlyClient not available'' else ''optlyContext not available''))))]\<rparr>"
proof -
  have "parse_context r = Inl (ErrorString
       (if ctx_client r = None then ''optlyClient not available'' else ''optlyContext not available''))"
    using assms by (auto simp: parse_context_def split: option.split)
  then show ?thesis by (simp add: track_event_context_fail handler_defs)
qed

theorem track_event_no_context_witness:
  "track_event queue_track
     \<lparr>req_raw_query = ''eventKey=purchase'', req_body = ''{'', ctx_client = None, ctx_optly = Some ()\<rparr>
     \<lparr>sdk = \<lparr>eq_known = [''purchase''], eq_events = []\<rparr>, trace = []\<rparr> =
   \<lparr>sdk = \<lparr>eq_known = [''purchase''], eq_events = []\<rparr>,
    trace = [Rendered 500 (Some (JObj [(''error'', JStr ''optlyClient not available'')]))]\<rparr>"
  using track_event_no_context [where r = "\<lparr>req_raw_query = ''eventKey=purchase'', req_body = ''{'',
      ctx_client = None, ctx_optly = Some ()\<rparr>" and tr = queue_track
    and w = "\<lparr>sdk = \<lparr>eq_known = [''purchase''], eq_events = []\<rparr>, trace = []\<rparr>"]
  by (simp add: handler_defs)

text \<open>
  C13. When the client and context are bound and the body is one JSON value of a kind
  other than an object or \<open>null\<close> (an array, a string, a number, a boolean), the handler
  answers 400 with the \<open>UnmarshalTypeError\<close> naming the kind and \<open>handlers.trackBody\<close>.
\<close>

theorem track_event_wrong_kind_body:
  assumes "ctx_client r = Some h" and "ctx_optly r = Some x"
    and "json_parse (req_body r) = Some j" and "json_kind j \<notin> {''object'', ''null''}"
  shows "track_event tr r w = w\<lparr>trace := trace w @
    [Rendered 400 (Some (error_body (JsonUnmarshalTypeError (json_kind j) None ''handlers.trackBody'')))]\<rparr>"
proof -
  from assms(1,2) have "parse_context r = Inr (h, x)" by (simp add: parse_context_Inr)
  moreover from assms(3,4) have "parse_request_body decode_trackBody r =
      Inl (JsonUnmarshalTypeError (json_kind j) None ''handlers.trackBody'')"
    by (cases j) (simp_all add: parse_body_cases)
  ultimately show ?thesis by (simp add: track_event_body_fail handler_defs)
qed

theorem track_event_wrong_kind_body_witness:
  "track_event queue_track
     \<lparr>req_raw_query = ''eventKey=purchase'', req_body = ''[1]'', ctx_client = Some (), ctx_optly = Some ()\<rparr>
     \<lparr>sdk = \<lparr>eq_known = [''purchase''], eq_events = []\<rparr>, trace = []\<rparr> =
   \<lparr>sdk = \<lparr>eq_known = [''purchase''], eq_events = []\<rparr>,
    trace = [Rendered 400 (Some (JObj [(''error'',
       JStr ''json: cannot unmarshal array into Go value of type handlers.trackBody'')]))]\<rparr>"
proof -
  have parse: "json_parse ''[1]'' = Some (JArr [JNum ''1''])" by (simp add: scan_defs)
  show ?thesis
    using track_event_wrong_kind_body [where r = "\<lparr>req_raw_query = ''eventKey=purchase'', req_body = ''[1]'',
        ctx_client = Some (), ctx_optly = Some ()\<rparr>" and h = "()" and x = "()" and tr = queue_track
      and j = "JArr [JNum ''1'']" and w = "\<lparr>sdk = \<lparr>eq_known = [''purchase''], eq_events = []\<rparr>, trace = []\<rparr>"]
    by (simp add: parse handler_defs)
qed

text \<open>
  C7. Every request is answered exactly once, by the last effect of the run, with one of
  the statuses 204, 400, 404 and 500.
\<close>

theorem track_event_single_response:
  "\<exists>es st b. track_effects tr r s = es @ [Rendered st b] \<and> responses es = [] \<and>
     st \<in> {204, 400, 404, 500}"
  unfolding track_effects_def
proof (induction rule: track_event_split)
  case (called h x b k res s')
  then show ?case
    by (cases res) (auto simp: handler_defs intro!: exI [of _ "[TrackCalled k _ _, Logged _]"])
qed (auto simp: handler_defs intro!: exI [of _ "[]"])

text \<open>
  C8. \<open>Track\<close> is called at most once, and it is called exactly when the client and the
  request context are bound, the body is a JSON object or \<open>null\<close>, and the query's first
  \<open>eventKey\<close> value is not empty.
\<close>

theorem track_event_calls_once:
  "length (track_calls (track_effects tr r s)) =
    (if ctx_client r \<noteq> None \<and> ctx_optly r \<noteq> None \<and>
        (case json_parse (req_body r) of Some (JObj _) \<Rightarrow> True | Some JNull \<Rightarrow> True | _ \<Rightarrow> False) \<and>
        values_get (url_query (req_raw_query r)) ''eventKey'' \<noteq> []
     then 1 else 0)"
  by (auto simp: track_effects_def track_event_calls_eq parse_body_cases parse_context_def Let_def
      split: option.splits json.splits)

text \<open>
  C11. \<open>json.Unmarshal\<close> into a \<open>trackBody\<close> accepts exactly the objects and \<open>null\<close>, and
  whatever the object holds, the result is the zero value: no member of the body reaches
  a field. Input that is not one JSON value is refused with the syntax error of the
  scanner, other kinds of value with a type error.
\<close>

theorem unmarshal_trackBody:
  "json_unmarshal decode_trackBody s =
    (case json_parse s of
       None \<Rightarrow> Inl (JsonSyntaxError (the (check_valid s)))
     | Some (JObj _) \<Rightarrow> Inr trackBody_zero
     | Some JNull \<Rightarrow> Inr trackBody_zero
     | Some j \<Rightarrow> Inl (JsonUnmarshalTypeError (json_kind j) None ''handlers.trackBody''))"
  by (simp add: json_unmarshal_eq decode_trackBody_eq split: option.split json.split)

text \<open>
  C12. A run logs exactly as many lines as it makes \<open>Track\<close> calls: the 500 and 400
  outcomes log nothing, the 404 and 204 outcomes log one line each.
\<close>

theorem track_event_logs_iff_tracked:
  "length (log_lines (track_effects tr r s)) = length (track_calls (track_effects tr r s))"
  using track_event_trace_cases [of tr r "\<lparr>sdk = s, trace = []\<rparr>"]
  by (auto simp: track_effects_def)

end
