(* ===== verification/TrackPhases.thy ===== *)
theory TrackPhases
  imports Track
begin

text \<open>
  \<open>TrackEvent\<close> cut into the three phases a concurrent server can interleave: the
  validation of the request (track.go lines 38--56), which reads only the request; the
  call of \<open>Track\<close> (lines 58--63), the one step that reads and writes the client
  library's state; and the response (lines 65--71), which writes only to the request's
  own log and response. The lemmas show that running the phases one after the other is
  \<open>track_event\<close>, and that a run of the handler only appends to the trace it is given.
  The last section relates the body check of the validation phase to Go's JSON scanner.
\<close>

section \<open>The phases\<close>

text \<open>Lines 38--56: \<open>parseContext\<close>, \<open>ParseRequestBody\<close> and the \<open>eventKey\<close> check. A
  refusal is the effects it renders (\<open>Inl\<close>); otherwise the client, the key and the
  body the call needs (\<open>Inr\<close>).\<close>

definition track_validate ::
  "('h, 'x) request \<Rightarrow> effect list + ('h \<times> string \<times> trackBody)" where
  "track_validate r =
    (case parse_context r of
       Inl err \<Rightarrow> Inl [Rendered StatusInternalServerError (Some (error_body err))]
     | Inr (optlyClient, _) \<Rightarrow>
         (case parse_request_body decode_trackBody r of
            Inl err \<Rightarrow> Inl [Rendered StatusBadRequest (Some (error_body err))]
          | Inr body \<Rightarrow>
              (let eventKey = values_get (url_query (req_raw_query r)) ''eventKey'' in
               if eventKey = []
               then Inl [Rendered StatusBadRequest (Some (error_body missing_event_key_error))]
               else Inr (optlyClient, eventKey, body))))"

text \<open>Lines 58--63: the user context is built and \<open>Track\<close> is called; the result, the
  client's new state and the call as an effect.\<close>

definition track_call ::
  "('h, 's) track_fn \<Rightarrow> 'h \<Rightarrow> string \<Rightarrow> trackBody \<Rightarrow> 's \<Rightarrow> go_error option \<times> 's \<times> effect" where
  "track_call track optlyClient eventKey body s =
    (let uc = track_user_context body;
         (err, s') = track optlyClient eventKey uc (eventTags body) s
     in (err, s', TrackCalled eventKey uc (eventTags body)))"

text \<open>Line 66: \<open>middleware.GetLogger(r).Error().Err(err).Str("eventKey", eventKey)
  .Msg("error tracking event")\<close>; zerolog writes the \<open>Err\<close> field under the key
  \<open>error\<close>.\<close>

definition track_error_log :: "string \<Rightarrow> go_error \<Rightarrow> log_entry" where
  "track_error_log eventKey err =
    \<lparr>log_level = ErrorLevel, log_fields = [(''error'', error_string err), (''eventKey'', eventKey)],
     log_msg = ''error tracking event''\<rparr>"

text \<open>Line 70: \<open>middleware.GetLogger(r).Debug().Str("eventKey", eventKey).Msg("tracking event")\<close>.\<close>

definition track_debug_log :: "string \<Rightarrow> log_entry" where
  "track_debug_log eventKey =
    \<lparr>log_level = DebugLevel, log_fields = [(''eventKey'', eventKey)], log_msg = ''tracking event''\<rparr>"

text \<open>Lines 65--71: the log line and the response for the result of \<open>Track\<close>.\<close>

definition track_respond :: "string \<Rightarrow> go_error option \<Rightarrow> effect list" where
  "track_respond eventKey err =
    (case err of
       Some e \<Rightarrow> [Logged (track_error_log eventKey e), Rendered StatusNotFound (Some (error_body e))]
     | None \<Rightarrow> [Logged (track_debug_log eventKey), Rendered StatusNoContent None])"

section \<open>The phases compose to the handler\<close>

lemma track_validate_Inr:
  "parse_context r = Inr (h, x) \<Longrightarrow> parse_request_body decode_trackBody r = Inr b \<Longrightarrow>
   values_get (url_query (req_raw_query r)) ''eventKey'' = k \<Longrightarrow> k \<noteq> [] \<Longrightarrow>
   track_validate r = Inr (h, k, b)"
  by (simp add: track_validate_def)

text \<open>A run only appends to the trace it is given, and what it appends and the state it
  leaves do not depend on the trace.\<close>

lemma track_event_frame:
  "track_event tr r w =
     \<lparr>sdk = sdk (track_event tr r \<lparr>sdk = sdk w, trace = []\<rparr>), trace = trace w @ track_effects tr r (sdk w)\<rparr>"
  by (simp add: track_event_def track_effects_def handler_defs Let_def
      split: sum.split prod.split option.split)

lemma track_effects_phases:
  "track_effects tr r s =
    (case track_validate r of
       Inl es \<Rightarrow> es
     | Inr (h, k, b) \<Rightarrow> (case track_call tr h k b s of (res, s', e) \<Rightarrow> e # track_respond k res))"
  unfolding track_effects_def
proof (induction rule: track_event_split)
  case (called h x b k res s')
  then show ?case
    by (simp add: track_validate_Inr track_call_def track_respond_def track_error_log_def track_debug_log_def split: option.split)
qed (simp_all add: track_validate_def handler_defs)

lemma track_sdk_phases:
  "sdk (track_event tr r w) =
    (case track_validate r of
       Inl _ \<Rightarrow> sdk w
     | Inr (h, k, b) \<Rightarrow> fst (snd (track_call tr h k b (sdk w))))"
proof (induction rule: track_event_split)
  case (called h x b k res s')
  then show ?case by (simp add: track_validate_Inr track_call_def)
qed (simp_all add: track_validate_def)

lemma track_call_effect:
  "snd (snd (track_call tr h k b s)) = TrackCalled k (track_user_context b) (eventTags b)"
  by (simp add: track_call_def Let_def split: prod.split)

text \<open>A refused request leaves the client library alone and appends its refusal.\<close>

lemma track_event_refused:
  "track_validate r = Inl es \<Longrightarrow> track_event tr r w = w\<lparr>trace := trace w @ es\<rparr>"
  by (subst track_event_frame) (simp add: track_effects_phases track_sdk_phases)

text \<open>Each run has exactly one response: a refusal is one rendered error, and the
  response phase renders once.\<close>

lemma track_validate_Inl_response:
  "track_validate r = Inl es \<Longrightarrow> length (responses es) = 1"
  by (auto simp: track_validate_def Let_def split: sum.splits if_splits)

lemma track_respond_response: "length (responses (track_respond k res)) = 1"
  by (simp add: track_respond_def track_error_log_def track_debug_log_def split: option.split)

lemma track_validate_Inl_calls:
  "track_validate r = Inl es \<Longrightarrow> track_calls es = []"
  by (auto simp: track_validate_def Let_def split: sum.splits if_splits)

lemma track_respond_calls: "track_calls (track_respond k res) = []"
  by (simp add: track_respond_def track_error_log_def track_debug_log_def split: option.split)

lemma track_effects_calls:
  "track_calls (track_effects tr r s) =
    (case track_validate r of Inl _ \<Rightarrow> [] | Inr (h, k, b) \<Rightarrow> [(k, track_user_context b, eventTags b)])"
  by (simp add: track_effects_phases track_call_def Let_def track_validate_Inl_calls track_respond_calls
      split: sum.split prod.split)

lemma track_effects_response: "length (responses (track_effects tr r s)) = 1"
  by (simp add: track_effects_phases track_call_def Let_def track_validate_Inl_response
      track_respond_response split: sum.split prod.split)

section \<open>Properties of the phases\<close>

text \<open>
  Equivalence: \<open>TrackEvent\<close> is its three phases run one after the other. A
  refused request appends its refusal and leaves the client library alone; an accepted
  one appends the \<open>Track\<close> call, then the log line and response for its result, and
  leaves the state \<open>Track\<close> returned.
\<close>

theorem track_event_phases:
  "track_event tr r w =
    (case track_validate r of
       Inl es \<Rightarrow> w\<lparr>trace := trace w @ es\<rparr>
     | Inr (h, k, b) \<Rightarrow>
         (case track_call tr h k b (sdk w) of
            (res, s', e) \<Rightarrow> \<lparr>sdk = s', trace = trace w @ e # track_respond k res\<rparr>))"
proof (cases "track_validate r")
  case (Inl es)
  then show ?thesis by (simp add: track_event_refused)
next
  case (Inr hkb)
  then show ?thesis
    by (subst track_event_frame)
      (simp add: track_effects_phases track_sdk_phases split: prod.split)
qed


section \<open>Malformed bodies\<close>

text \<open>
  \<open>ParseRequestBody\<close> into a \<open>trackBody\<close> fails with a syntax error exactly
  when Go's scanner rejects the body, and the error carries the scanner's message: a body
  that is one JSON value is never refused for its syntax (only, if it is not an object or
  \<open>null\<close>, for its kind).
\<close>

theorem parse_body_syntax_error_iff:
  "parse_request_body decode_trackBody r = Inl (JsonSyntaxError msg) \<longleftrightarrow>
   check_valid (req_body r) = Some msg"
  using parse_body_cases [of r] check_valid_iff_json_parse [of "req_body r"]
  by (auto split: option.splits json.splits)

end
