(* ===== verification/Server.thy ===== *)
theory Server
  imports TrackPhases
begin

text \<open>
  The HTTP server that runs \<open>TrackEvent\<close>. Go's \<open>net/http\<close> serves every request in a
  goroutine of its own, so the handler runs of concurrent requests interleave; they share
  only the client library. Two models: \<open>serve\<close>, the requests handled one after the
  other, and \<open>server_step\<close>, a step relation in which any request in flight may take
  its next phase (\<open>TrackPhases\<close>). The server state carries, as a ghost, the list of
  \<open>Track\<close> calls made so far with the client state each one saw; the invariant
  \<open>server_inv\<close> relates every thread's progress to that list.
\<close>

section \<open>Requests served one after the other\<close>

definition serve :: "('h, 's) track_fn \<Rightarrow> ('h, 'x) request list \<Rightarrow> 's world \<Rightarrow> 's world" where
  "serve tr rs w = fold (track_event tr) rs w"

section \<open>Requests served concurrently\<close>

text \<open>Where a request's goroutine is in \<open>TrackEvent\<close>: not started, validated and about to
  call \<open>Track\<close> with the client, key and body, back from \<open>Track\<close> with its result, or
  returned.\<close>

datatype 'h track_pc =
    Begin
  | AtTrack 'h string trackBody
  | AfterTrack string "go_error option"
  | Done

text \<open>A goroutine: its request, where it is, and the effects it has had so far (its log
  lines, its call and its response).\<close>

record ('h, 'x) thread =
  th_req :: "('h, 'x) request"
  th_pc :: "'h track_pc"
  th_out :: "effect list"

text \<open>The server: the client library's state, one goroutine per request, and (ghost) the
  \<open>Track\<close> calls made, newest first, each with the index of its goroutine and the
  client state it saw.\<close>

record ('h, 'x, 's) server =
  sv_sdk :: 's
  sv_threads :: "('h, 'x) thread list"
  sv_calls :: "(nat \<times> 's) list"

definition server_init :: "('h, 'x) request list \<Rightarrow> 's \<Rightarrow> ('h, 'x, 's) server" where
  "server_init rs s =
    \<lparr>sv_sdk = s, sv_threads = map (\<lambda>r. \<lparr>th_req = r, th_pc = Begin, th_out = []\<rparr>) rs, sv_calls = []\<rparr>"

definition server_final :: "('h, 'x, 's) server \<Rightarrow> bool" where
  "server_final c \<longleftrightarrow> list_all (\<lambda>th. th_pc th = Done) (sv_threads c)"

text \<open>One step: some goroutine \<open>i\<close> takes its next phase. Validation either renders a
  refusal and returns, or moves on to the call; the call is the one step that reads and
  writes the client state; the response returns.\<close>

inductive server_step :: "('h, 's) track_fn \<Rightarrow> ('h, 'x, 's) server \<Rightarrow> ('h, 'x, 's) server \<Rightarrow> bool"
  for tr where
  refuse: "i < length (sv_threads c) \<Longrightarrow> th_pc (sv_threads c ! i) = Begin \<Longrightarrow>
    track_validate (th_req (sv_threads c ! i)) = Inl es \<Longrightarrow>
    server_step tr c (c\<lparr>sv_threads := (sv_threads c)[i := (sv_threads c ! i)\<lparr>th_pc := Done, th_out := es\<rparr>]\<rparr>)"
| accept: "i < length (sv_threads c) \<Longrightarrow> th_pc (sv_threads c ! i) = Begin \<Longrightarrow>
    track_validate (th_req (sv_threads c ! i)) = Inr (h, k, b) \<Longrightarrow>
    server_step tr c (c\<lparr>sv_threads := (sv_threads c)[i := (sv_threads c ! i)\<lparr>th_pc := AtTrack h k b\<rparr>]\<rparr>)"
| call: "i < length (sv_threads c) \<Longrightarrow> th_pc (sv_threads c ! i) = AtTrack h k b \<Longrightarrow>
    track_call tr h k b (sv_sdk c) = (res, s', e) \<Longrightarrow>
    server_step tr c \<lparr>sv_sdk = s',
      sv_threads = (sv_threads c)[i := (sv_threads c ! i)\<lparr>th_pc := AfterTrack k res, th_out := [e]\<rparr>],
      sv_calls = (i, sv_sdk c) # sv_calls c\<rparr>"
| respond: "i < length (sv_threads c) \<Longrightarrow> th_pc (sv_threads c ! i) = AfterTrack k res \<Longrightarrow>
    server_step tr c (c\<lparr>sv_threads := (sv_threads c)[i :=
      (sv_threads c ! i)\<lparr>th_pc := Done, th_out := th_out (sv_threads c ! i) @ track_respond k res\<rparr>]\<rparr>)"

inductive_cases server_step_cases: "server_step tr c c'"

section \<open>The invariant\<close>

text \<open>The calls of the ghost list, oldest first, replay the client state: each saw the
  state the previous one left, and the last left the current one.\<close>

fun calls_chain :: "('h, 's) track_fn \<Rightarrow> ('h, 'x) request list \<Rightarrow> (nat \<times> 's) list \<Rightarrow> 's \<Rightarrow> 's \<Rightarrow> bool" where
  "calls_chain tr rs [] s0 s \<longleftrightarrow> s = s0"
| "calls_chain tr rs ((i, \<sigma>) # cs) s0 s \<longleftrightarrow>
     calls_chain tr rs cs s0 \<sigma> \<and> s = sdk (track_event tr (rs ! i) \<lparr>sdk = \<sigma>, trace = []\<rparr>)"

text \<open>A goroutine for request \<open>r\<close> is where a run of the handler would be: before its call
  it has no effects and has seen no client state; from its call on it has had a prefix
  of the effects of the handler run from the state its call saw (\<open>\<sigma>\<close>); a refused one
  has had the effects of the refusal.\<close>

fun thread_ok :: "('h, 's) track_fn \<Rightarrow> ('h, 'x) request \<Rightarrow> 's option \<Rightarrow> 'h track_pc \<Rightarrow> effect list \<Rightarrow> bool" where
  "thread_ok tr r \<sigma> Begin out \<longleftrightarrow> \<sigma> = None \<and> out = []"
| "thread_ok tr r \<sigma> (AtTrack h k b) out \<longleftrightarrow> \<sigma> = None \<and> out = [] \<and> track_validate r = Inr (h, k, b)"
| "thread_ok tr r \<sigma> (AfterTrack k res) out \<longleftrightarrow>
     (\<exists>s h b. \<sigma> = Some s \<and> track_validate r = Inr (h, k, b) \<and> res = fst (track_call tr h k b s) \<and>
        out = [snd (snd (track_call tr h k b s))])"
| "thread_ok tr r \<sigma> Done out \<longleftrightarrow>
     (case \<sigma> of
        None \<Rightarrow> track_validate r = Inl out
      | Some s \<Rightarrow> (\<exists>hkb. track_validate r = Inr hkb) \<and> out = track_effects tr r s)"

definition server_inv :: "('h, 's) track_fn \<Rightarrow> ('h, 'x) request list \<Rightarrow> 's \<Rightarrow> ('h, 'x, 's) server \<Rightarrow> bool" where
  "server_inv tr rs s0 c \<longleftrightarrow>
     length (sv_threads c) = length rs \<and>
     distinct (map fst (sv_calls c)) \<and> fst ` set (sv_calls c) \<subseteq> {..<length rs} \<and>
     calls_chain tr rs (sv_calls c) s0 (sv_sdk c) \<and>
     (\<forall>i < length rs. th_req (sv_threads c ! i) = rs ! i \<and>
        thread_ok tr (rs ! i) (map_of (sv_calls c) i) (th_pc (sv_threads c ! i)) (th_out (sv_threads c ! i)))"

section \<open>An executable scheduler\<close>

text \<open>The step of goroutine \<open>i\<close>, if it has one: the same four transitions as
  \<open>server_step\<close>, as a function, so that a schedule (the order in which goroutines move)
  can be run on a concrete server state.\<close>

definition thread_step :: "('h, 's) track_fn \<Rightarrow> ('h, 'x, 's) server \<Rightarrow> nat \<Rightarrow> ('h, 'x, 's) server option" where
  "thread_step tr c i =
    (if i < length (sv_threads c) then
       (let th = sv_threads c ! i in
        case th_pc th of
          Begin \<Rightarrow>
            (case track_validate (th_req th) of
               Inl es \<Rightarrow> Some (c\<lparr>sv_threads := (sv_threads c)[i := th\<lparr>th_pc := Done, th_out := es\<rparr>]\<rparr>)
             | Inr (h, k, b) \<Rightarrow> Some (c\<lparr>sv_threads := (sv_threads c)[i := th\<lparr>th_pc := AtTrack h k b\<rparr>]\<rparr>))
        | AtTrack h k b \<Rightarrow>
            (case track_call tr h k b (sv_sdk c) of
               (res, s', e) \<Rightarrow> Some \<lparr>sv_sdk = s',
                 sv_threads = (sv_threads c)[i := th\<lparr>th_pc := AfterTrack k res, th_out := [e]\<rparr>],
                 sv_calls = (i, sv_sdk c) # sv_calls c\<rparr>)
        | AfterTrack k res \<Rightarrow>
            Some (c\<lparr>sv_threads := (sv_threads c)[i :=
              th\<lparr>th_pc := Done, th_out := th_out th @ track_respond k res\<rparr>]\<rparr>)
        | Done \<Rightarrow> None)
     else None)"

fun run_schedule :: "('h, 's) track_fn \<Rightarrow> ('h, 'x, 's) server \<Rightarrow> nat list \<Rightarrow> ('h, 'x, 's) server option" where
  "run_schedule tr c [] = Some c"
| "run_schedule tr c (i # is) = (case thread_step tr c i of None \<Rightarrow> None | Some c' \<Rightarrow> run_schedule tr c' is)"

text \<open>The phases a goroutine still has to take: three before validation (validation,
  call, response), two before the call, one before the response.\<close>

fun pc_work :: "'h track_pc \<Rightarrow> nat" where
  "pc_work Begin = 3"
| "pc_work (AtTrack _ _ _) = 2"
| "pc_work (AfterTrack _ _) = 1"
| "pc_work Done = 0"

definition server_work :: "('h, 'x, 's) server \<Rightarrow> nat" where
  "server_work c = sum_list (map (\<lambda>th. pc_work (th_pc th)) (sv_threads c))"

section \<open>Serving in sequence\<close>

lemma serve_Cons: "serve tr (r # rs) w = serve tr rs (track_event tr r w)"
  by (simp add: serve_def)

lemma serve_append: "serve tr (xs @ ys) w = serve tr ys (serve tr xs w)"
  by (simp add: serve_def)

section \<open>The invariant holds in every reachable server state\<close>

lemma server_inv_init: "server_inv tr rs s (server_init rs s)"
  by (simp add: server_inv_def server_init_def)

lemma map_of_None_notin: "map_of cs i = None \<Longrightarrow> i \<notin> fst ` set cs"
  by (simp add: map_of_eq_None_iff)

lemma server_step_inv:
  assumes "server_step tr c c'" and "server_inv tr rs s0 c"
  shows "server_inv tr rs s0 c'"
  using assms
proof (induction rule: server_step.induct)
  case (refuse i c es)
  then show ?case
    by (auto simp: server_inv_def nth_list_update)
next
  case (accept i c h k b)
  then show ?case
    by (auto simp: server_inv_def nth_list_update)
next
  case (call i c h k b res s' e)
  then have ok: "map_of (sv_calls c) i = None" "track_validate (rs ! i) = Inr (h, k, b)"
    by (auto simp: server_inv_def)
  have sdk': "s' = sdk (track_event tr (rs ! i) \<lparr>sdk = sv_sdk c, trace = []\<rparr>)"
    using call.hyps(3) ok(2) by (simp add: track_sdk_phases)
  show ?case
    using call ok sdk' map_of_None_notin [OF ok(1)]
    by (auto simp: server_inv_def nth_list_update)
next
  case (respond i c k res)
  then have "thread_ok tr (rs ! i) (map_of (sv_calls c) i) (AfterTrack k res) (th_out (sv_threads c ! i))"
    by (auto simp: server_inv_def)
  then obtain s h b where th: "map_of (sv_calls c) i = Some s" "track_validate (rs ! i) = Inr (h, k, b)"
      "res = fst (track_call tr h k b s)" "th_out (sv_threads c ! i) = [snd (snd (track_call tr h k b s))]"
    by auto
  then have "th_out (sv_threads c ! i) @ track_respond k res = track_effects tr (rs ! i) s"
    by (simp add: track_effects_phases split: prod.split)
  with respond th show ?case
    by (auto simp: server_inv_def nth_list_update)
qed

lemma server_reachable_inv:
  assumes "(server_step tr)\<^sup>*\<^sup>* (server_init rs s0) c"
  shows "server_inv tr rs s0 c"
  using assms
proof (induction rule: rtranclp_induct)
  case base
  show ?case by (rule server_inv_init)
next
  case (step c c')
  then show ?case by (blast intro: server_step_inv)
qed

section \<open>The scheduler takes the steps of the relation\<close>

lemma thread_step_server_step:
  "thread_step tr c i = Some c' \<Longrightarrow> server_step tr c c'"
  by (auto simp: thread_step_def Let_def intro: server_step.intros
      split: if_splits track_pc.splits sum.splits prod.splits)

lemma server_step_thread_step:
  "server_step tr c c' \<Longrightarrow> \<exists>i. thread_step tr c i = Some c'"
proof (induction rule: server_step.induct)
  case (refuse i)
  then show ?case by (intro exI [of _ i]) (simp add: thread_step_def Let_def)
next
  case (accept i)
  then show ?case by (intro exI [of _ i]) (simp add: thread_step_def Let_def)
next
  case (call i)
  then show ?case by (intro exI [of _ i]) (simp add: thread_step_def Let_def)
next
  case (respond i)
  then show ?case by (intro exI [of _ i]) (simp add: thread_step_def Let_def)
qed

lemma run_schedule_reaches:
  "run_schedule tr c is = Some c' \<Longrightarrow> (server_step tr)\<^sup>*\<^sup>* c c'"
proof (induction "is" arbitrary: c)
  case Nil
  then show ?case by simp
next
  case (Cons i "is")
  then obtain c1 where "thread_step tr c i = Some c1" "run_schedule tr c1 is = Some c'"
    by (auto split: option.splits)
  with Cons.IH show ?case
    by (blast intro: converse_rtranclp_into_rtranclp thread_step_server_step)
qed

section \<open>Work decreases\<close>

lemma sum_list_update_nat:
  "i < length xs \<Longrightarrow> sum_list (xs[i := y]) + xs ! i = sum_list xs + (y :: nat)"
proof (induction xs arbitrary: i)
  case Nil
  then show ?case by simp
next
  case (Cons x xs)
  then show ?case by (cases i) auto
qed

lemma sum_list_update_less:
  "i < length xs \<Longrightarrow> y < xs ! i \<Longrightarrow> sum_list (xs[i := y]) < sum_list (xs :: nat list)"
  using sum_list_update_nat [of i xs y] by simp

lemma server_step_work:
  "server_step tr c c' \<Longrightarrow> server_work c' < server_work c"
  by (induction rule: server_step.induct) (simp_all add: server_work_def map_update sum_list_update_less)

lemma server_work_init: "server_work (server_init rs s) = 3 * length rs"
  by (induction rs) (simp_all add: server_work_def server_init_def)

section \<open>Replaying the calls in sequence\<close>

text \<open>Serving the requests of the ghost list in the order of their calls reproduces the
  client state, and appends each request's effects as run from the state its call saw.\<close>

lemma calls_chain_serve:
  "calls_chain tr rs cs s0 s \<Longrightarrow>
   serve tr (map (\<lambda>(i, \<sigma>). rs ! i) (rev cs)) \<lparr>sdk = s0, trace = t\<rparr> =
     \<lparr>sdk = s, trace = t @ concat (map (\<lambda>(i, \<sigma>). track_effects tr (rs ! i) \<sigma>) (rev cs))\<rparr>"
proof (induction cs arbitrary: s)
  case Nil
  then show ?case by (simp add: serve_def)
next
  case (Cons c cs)
  obtain i \<sigma> where c: "c = (i, \<sigma>)" by fastforce
  with Cons.prems have "calls_chain tr rs cs s0 \<sigma>"
    and s: "s = sdk (track_event tr (rs ! i) \<lparr>sdk = \<sigma>, trace = []\<rparr>)" by simp_all
  have one: "serve tr [rs ! i] \<lparr>sdk = \<sigma>, trace = T\<rparr> =
      \<lparr>sdk = s, trace = T @ track_effects tr (rs ! i) \<sigma>\<rparr>" for T
    using track_event_frame [of tr "rs ! i" "\<lparr>sdk = \<sigma>, trace = T\<rparr>"] s by (simp add: serve_def)
  from Cons.IH [OF \<open>calls_chain tr rs cs s0 \<sigma>\<close>] c show ?case
    by (simp add: serve_append one)
qed

lemma serve_refused:
  "\<forall>i \<in> set is. track_validate (rs ! i) = Inl (out i) \<Longrightarrow>
   serve tr (map ((!) rs) is) w = w\<lparr>trace := trace w @ concat (map out is)\<rparr>"
proof (induction "is" arbitrary: w)
  case Nil
  then show ?case by (simp add: serve_def)
next
  case (Cons i "is")
  then show ?case by (simp add: serve_Cons track_event_refused)
qed

section \<open>Every goroutine can always finish\<close>

lemma thread_step_exists:
  "i < length (sv_threads c) \<Longrightarrow> th_pc (sv_threads c ! i) \<noteq> Done \<Longrightarrow> \<exists>c'. thread_step tr c i = Some c'"
  by (auto simp: thread_step_def Let_def split: track_pc.split sum.split prod.split)

lemma not_final_thread:
  "\<not> server_final c \<Longrightarrow> \<exists>i < length (sv_threads c). th_pc (sv_threads c ! i) \<noteq> Done"
  by (auto simp: server_final_def list_all_length)

lemma relpowp_server_work:
  "(server_step tr ^^ n) c c' \<Longrightarrow> server_work c' + n \<le> server_work c"
proof (induction n arbitrary: c')
  case 0
  then show ?case by simp
next
  case (Suc n)
  then obtain c1 where "(server_step tr ^^ n) c c1" "server_step tr c1 c'" by auto
  with Suc.IH [of c1] server_step_work [of tr c1 c'] show ?case by simp
qed

lemma run_schedule_relpowp:
  "run_schedule tr c is = Some c' \<Longrightarrow> (server_step tr ^^ length is) c c'"
proof (induction "is" arbitrary: c)
  case Nil
  then show ?case by simp
next
  case (Cons i "is")
  then obtain c1 where c1: "thread_step tr c i = Some c1" and run: "run_schedule tr c1 is = Some c'"
    by (auto split: option.splits)
  from thread_step_server_step [OF c1] Cons.IH [OF run] have "(server_step tr ^^ Suc (length is)) c c'"
    by (rule relpowp_Suc_I2)
  then show ?case by simp
qed

section \<open>Properties of the concurrent server\<close>

text \<open>
  C16. Serializability: whatever the interleaving, once every goroutine has returned,
  the outcome is that of serving the same requests one after the other in some order
  (the accepted ones in the order of their \<open>Track\<close> calls): the client library ends in
  the state of that serial run, and each request has had exactly the effects the serial
  run gives it.
\<close>

theorem server_serializable:
  assumes "(server_step tr)\<^sup>*\<^sup>* (server_init rs s0) c" and "server_final c"
  shows "\<exists>ord. distinct ord \<and> set ord = {..<length rs} \<and>
    serve tr (map ((!) rs) ord) \<lparr>sdk = s0, trace = []\<rparr> =
      \<lparr>sdk = sv_sdk c, trace = concat (map (\<lambda>i. th_out (sv_threads c ! i)) ord)\<rparr>"
proof -
  from assms(1) have inv: "server_inv tr rs s0 c" by (rule server_reachable_inv)
  define cs where "cs = sv_calls c"
  define called where "called = rev (map fst cs)"
  define others where "others = filter (\<lambda>i. i \<notin> set called) [0..<length rs]"
  from inv have dist: "distinct (map fst cs)" and sub: "fst ` set cs \<subseteq> {..<length rs}"
    and chain: "calls_chain tr rs cs s0 (sv_sdk c)"
    by (simp_all add: server_inv_def cs_def)
  have ok: "thread_ok tr (rs ! i) (map_of cs i) Done (th_out (sv_threads c ! i))" if "i < length rs" for i
    using inv assms(2) that by (auto simp: server_inv_def server_final_def list_all_length cs_def)
  have out_called: "th_out (sv_threads c ! i) = track_effects tr (rs ! i) \<sigma>" if "(i, \<sigma>) \<in> set cs" for i \<sigma>
  proof -
    from that dist have "map_of cs i = Some \<sigma>" by (simp add: map_of_is_SomeI)
    with ok [of i] that sub show ?thesis by auto
  qed
  have out_others: "track_validate (rs ! i) = Inl (th_out (sv_threads c ! i))" if "i \<in> set others" for i
  proof -
    from that have "i < length rs" "map_of cs i = None"
      by (auto simp: others_def called_def map_of_eq_None_iff)
    with ok [of i] show ?thesis by simp
  qed
  have serial: "serve tr (map ((!) rs) called) \<lparr>sdk = s0, trace = []\<rparr> =
      \<lparr>sdk = sv_sdk c, trace = concat (map (\<lambda>i. th_out (sv_threads c ! i)) called)\<rparr>"
  proof -
    have "map ((!) rs) called = map (\<lambda>(i, \<sigma>). rs ! i) (rev cs)"
      by (simp add: called_def rev_map case_prod_beta comp_def)
    moreover have "map (\<lambda>(i, \<sigma>). track_effects tr (rs ! i) \<sigma>) (rev cs) =
        map (\<lambda>i. th_out (sv_threads c ! i)) called"
      by (auto simp: called_def rev_map out_called)
    ultimately show ?thesis using calls_chain_serve [OF chain, of "[]"] by simp
  qed
  have "distinct (called @ others)" using dist by (auto simp: called_def others_def)
  moreover have "set (called @ others) = {..<length rs}" using sub by (auto simp: called_def others_def)
  moreover have "serve tr (map ((!) rs) (called @ others)) \<lparr>sdk = s0, trace = []\<rparr> =
      \<lparr>sdk = sv_sdk c, trace = concat (map (\<lambda>i. th_out (sv_threads c ! i)) (called @ others))\<rparr>"
  proof -
    have "serve tr (map ((!) rs) others) w =
        w\<lparr>trace := trace w @ concat (map (\<lambda>i. th_out (sv_threads c ! i)) others)\<rparr>" for w
      by (rule serve_refused) (simp add: out_others)
    then show ?thesis by (simp add: serve_append serial)
  qed
  ultimately show ?thesis by blast
qed

text \<open>
  Liveness: from every state of the server, whatever has happened so far, the
  goroutines can all run to their return: no request is ever stuck without a response.
\<close>

theorem server_can_finish: "\<exists>c'. (server_step tr)\<^sup>*\<^sup>* c c' \<and> server_final c'"
proof (induction "server_work c" arbitrary: c rule: less_induct)
  case less
  show ?case
  proof (cases "server_final c")
    case True
    then show ?thesis by blast
  next
    case False
    then obtain i where "i < length (sv_threads c)" "th_pc (sv_threads c ! i) \<noteq> Done"
      using not_final_thread by blast
    then obtain c1 where "thread_step tr c i = Some c1" using thread_step_exists by blast
    then have step: "server_step tr c c1" by (rule thread_step_server_step)
    then have "server_work c1 < server_work c" by (rule server_step_work)
    with less obtain c' where "(server_step tr)\<^sup>*\<^sup>* c1 c'" "server_final c'" by blast
    with step show ?thesis by (blast intro: converse_rtranclp_into_rtranclp)
  qed
qed

text \<open>
  Bounds: serving \<open>n\<close> requests concurrently takes at most \<open>3 n\<close> steps, whatever
  the interleaving (each goroutine validates, calls and responds at most once), so every
  run of the server terminates.
\<close>

theorem server_run_bound:
  assumes "(server_step tr ^^ k) (server_init rs s) c"
  shows "k \<le> 3 * length rs"
  using relpowp_server_work [OF assms] by (simp add: server_work_init)

text \<open>
  Well-formedness of every reachable server state: there is one goroutine per
  request, serving that request, and a goroutine has rendered exactly one response if it
  has returned and none before.
\<close>

theorem server_threads_wf:
  assumes "(server_step tr)\<^sup>*\<^sup>* (server_init rs s0) c"
  shows "length (sv_threads c) = length rs \<and>
    (\<forall>i < length rs. th_req (sv_threads c ! i) = rs ! i \<and>
       length (responses (th_out (sv_threads c ! i))) = (if th_pc (sv_threads c ! i) = Done then 1 else 0))"
proof -
  from assms have inv: "server_inv tr rs s0 c" by (rule server_reachable_inv)
  have wf: "length (responses out) = (if pc = Done then 1 else 0)" if "thread_ok tr r \<sigma> pc out" for r \<sigma> pc out
    using that
    by (cases pc) (auto simp: track_call_effect track_effects_response track_validate_Inl_response
        split: option.splits)
  have len: "length (sv_threads c) = length rs" using inv by (simp add: server_inv_def)
  have "th_req (sv_threads c ! i) = rs ! i \<and>
      length (responses (th_out (sv_threads c ! i))) = (if th_pc (sv_threads c ! i) = Done then 1 else 0)"
    if "i < length rs" for i
  proof -
    from that inv have "th_req (sv_threads c ! i) = rs ! i"
      and "thread_ok tr (rs ! i) (map_of (sv_calls c) i) (th_pc (sv_threads c ! i)) (th_out (sv_threads c ! i))"
      by (simp_all add: server_inv_def)
    with wf show ?thesis by blast
  qed
  with len show ?thesis by blast
qed

text \<open>
  The executable scheduler is exact: a server state steps to another exactly when
  some goroutine's \<open>thread_step\<close> yields it.
\<close>

theorem server_step_iff_thread_step:
  "server_step tr c c' \<longleftrightarrow> (\<exists>i. thread_step tr c i = Some c')"
  using server_step_thread_step thread_step_server_step by blast

text \<open>
  No retries and no lost calls, under any interleaving: once every goroutine has
  returned, each request has made exactly one \<open>Track\<close> call if it passed validation
  and none if it was refused.
\<close>

theorem server_calls_once:
  assumes "(server_step tr)\<^sup>*\<^sup>* (server_init rs s0) c" and "server_final c" and "i < length rs"
  shows "length (track_calls (th_out (sv_threads c ! i))) =
    (case track_validate (rs ! i) of Inl _ \<Rightarrow> 0 | Inr _ \<Rightarrow> 1)"
proof -
  from assms(1) have "server_inv tr rs s0 c" by (rule server_reachable_inv)
  with assms(2,3) have ok: "thread_ok tr (rs ! i) (map_of (sv_calls c) i) Done (th_out (sv_threads c ! i))"
    by (auto simp: server_inv_def server_final_def list_all_length)
  show ?thesis
  proof (cases "map_of (sv_calls c) i")
    case None
    with ok show ?thesis by (simp add: track_validate_Inl_calls)
  next
    case (Some s)
    with ok show ?thesis
      by (auto simp: track_effects_calls split: sum.split)
  qed
qed

end
