(* ===== verification/Spec2Isabelle.thy ===== *)
theory Spec2Isabelle
  imports Server
begin

text \<open>
  \<^bold>\<open>A model of the track-event handler of the Optimizely Agent.\<close>

  The program is one HTTP handler, \<open>TrackEvent\<close> in \<^verbatim>\<open>src/pkg/handlers/track.go\<close>,
  together with the request body type \<open>trackBody\<close> it decodes. For every request it
  (1) takes the client and the request context that the middleware bound into
  \<open>r.Context()\<close>, answering 500 if either is missing; (2) unmarshals the body into a
  \<open>trackBody\<close> with \<open>json.Unmarshal\<close>, answering 400 on error; (3) reads \<open>eventKey\<close>
  from the query with \<open>r.URL.Query().Get\<close>, answering 400 if it is empty; (4) calls
  \<open>optlyClient.Track(eventKey, uc, body.eventTags)\<close>; (5) on error logs at error level
  and answers 404, otherwise logs at debug level and answers 204 with no body.

  \<^bold>\<open>Theories.\<close>
  \<^item> \<open>Prelude\<close>: Go error values (\<open>go_error\<close>) and their messages, nil-able Go maps
    (\<open>go_map\<close>), the collections \<open>scan_defs\<close> and \<open>handler_defs\<close>, shared lemmas.
  \<^item> \<open>Json\<close>: the decoder's reading of JSON text (\<open>decodeState.value\<close>), as byte-level
    readers and the mutually recursive parser \<open>parse_value\<close>/\<open>parse_array_rest\<close>/
    \<open>parse_object_rest\<close>; \<open>json_parse\<close> reads one value followed by whitespace.
  \<^item> \<open>JsonScan\<close>: Go's scanner (\<open>scanner.go\<close>), the state machine \<open>json.Unmarshal\<close> runs
    over the whole input first (\<open>checkValid\<close>, here \<open>check_valid\<close>): one state per state
    function (\<open>scan_state\<close>), the stack of \<open>parseState\<close>s, one step per byte
    (\<open>scan_step\<close>), the loop over the bytes (\<open>scan_bytes\<close>), the end of input
    (\<open>scan_eof\<close>), and the error messages built with \<open>quoteChar\<close> (\<open>quote_char\<close>), so
    that a syntax error carries Go's exact text. The invariant \<open>scan_wf\<close>, kept by every
    step, shows that \<open>stateBeginStringOrEmpty\<close> never indexes an empty stack.
  \<^item> \<open>JsonValid\<close>: the scanner accepts exactly what the parser reads
    (\<open>check_valid_iff_json_parse\<close>), by a simulation: a value read by the parser takes
    the scanner from \<open>stateBeginValue\<close> to \<open>stateEndValue\<close> whatever the enclosing stack,
    and where the parser fails the scanner reports an error.
  \<^item> \<open>JsonPrefix\<close>: the parser reads a value the same way whatever input follows it
    (\<open>parse_value_append\<close>), hence the scanner's message for data after a complete
    top-level value (\<open>check_valid_trailing\<close>).
  \<^item> \<open>JsonDecode\<close>: \<open>json.Unmarshal\<close> (\<open>json_unmarshal\<close>): the scanner's error if it
    rejects the input, otherwise the parsed value decoded into a Go value: maps (\<open>decode_map\<close>), structs (\<open>decode_struct\<close>, the field a key selects
    by \<open>field_for_key\<close>, among exported fields only), and field setters.
  \<^item> \<open>UrlQuery\<close>: \<open>url.ParseQuery\<close> (\<open>parse_query\<close>), \<open>URL.Query()\<close> (\<open>url_query\<close>),
    \<open>Values.Get\<close> (\<open>values_get\<close>), \<open>QueryUnescape\<close> and \<open>QueryEscape\<close>.
  \<^item> \<open>Client\<close>: \<open>entities.UserContext\<close> and the client interface: \<open>track_fn\<close> is the
    signature of \<open>Track\<close> over an arbitrary client handle \<open>'h\<close> and client state \<open>'s\<close>;
    \<open>queue_track\<close> is one implementation (a client knowing a list of event keys) used to
    run concrete requests.
  \<^item> \<open>Http\<close>: the request record (raw query, body, the bound client and context), the
    observable effects (\<open>Logged\<close>, \<open>TrackCalled\<close>, \<open>Rendered\<close>) collected in the \<open>trace\<close>
    of a \<open>world\<close> that also holds the client state, and the helpers of package
    \<open>handlers\<close> the handler calls (\<open>parse_context\<close>, \<open>parse_request_body\<close>,
    \<open>render_error\<close>, \<open>render_no_content\<close>, \<open>log_event\<close>).
  \<^item> \<open>Track\<close>: \<open>trackBody\<close> (track.go 30--34) as a record and as the field list
    \<open>reflect\<close> sees (\<open>trackBody_fields\<close>: three unexported fields), its decoder
    \<open>decode_trackBody\<close> (lines 44--45), and \<open>track_event\<close> (lines 37--72), one branch per
    early return of the source, each call that has an effect appending to the trace in
    source order. \<open>track_event_split\<close> is the case analysis over its five outcomes.
  \<^item> \<open>TrackPhases\<close>: the same handler cut into its three phases, \<open>track_validate\<close>
    (lines 38--56, reads only the request), \<open>track_call\<close> (lines 58--63, the only access
    to the client's state) and \<open>track_respond\<close> (lines 65--71, with its two log lines
    \<open>track_error_log\<close> and \<open>track_debug_log\<close>), with the proof that they compose to
    \<open>track_event\<close>; and the handling of malformed bodies.
  \<^item> \<open>Server\<close>: the \<open>net/http\<close> server around the handler. \<open>serve\<close> handles requests one
    after another; \<open>server_step\<close> is the concurrent server, one goroutine per request,
    an inductive step relation in which any goroutine takes its next phase.
    \<open>thread_step\<close>/\<open>run_schedule\<close> run a given interleaving. The server state holds,
    as a ghost, the \<open>Track\<close> calls made with the client state each saw; the invariant
    \<open>server_inv\<close> (proved by rule induction over the steps) ties every goroutine to the
    serial run from that state.
  \<^item> This theory: the contract of the handler as an abstract machine (\<open>classify_request\<close>,
    \<open>spec_run\<close>, \<open>spec_serve\<close>, \<open>spec_calls\<close>), the scenario fixtures, and the
    properties that span requests.

  \<^bold>\<open>What is proved.\<close> The properties C1--C16, each after a text block naming it.
  Of \<open>TrackEvent\<close> on one request: the result of every outcome with its exact trace
  (C1, C3--C6, C13); that the user context and tags passed to \<open>Track\<close> are always empty,
  because the body's fields are unexported (C2, C11); that each run renders exactly one
  response, last (C7), calls \<open>Track\<close> at most once and exactly when the contract says
  (C8), and logs only when it called \<open>Track\<close> (C12). Of sequences of requests: a
  refinement of the abstract machine by \<open>serve\<close> for any client and any sequence of
  requests (C9) and the exact sequence of \<open>Track\<close> calls (C10). Of the event key read
  from the query: the value a client encodes with \<open>QueryEscape\<close> arrives unchanged (C14),
  and a malformed escape makes the key absent (C15). Of concurrent requests: any finished
  interleaving equals a serial run in the order of the \<open>Track\<close> calls (C16,
  serializability), which holds because validation and response never read the client's
  state.

  The theories also prove facts of the model itself, which support these properties but
  are not properties of the handler: the three phases compose to \<open>track_event\<close>
  (\<open>track_event_phases\<close>); the concurrent server can always finish (\<open>server_can_finish\<close>),
  takes at most \<open>3 n\<close> steps on \<open>n\<close> requests (\<open>server_run_bound\<close>, from \<open>pc_work\<close>: every
  goroutine takes at most three steps), keeps its goroutines well formed
  (\<open>server_threads_wf\<close>), makes one \<open>Track\<close> call per validated request
  (\<open>server_calls_once\<close>), and its executable scheduler takes exactly the steps of the
  relation (\<open>server_step_iff_thread_step\<close>). The library theories prove that Go's scanner
  and the parser accept the same inputs (\<open>check_valid_iff_json_parse\<close>), that the body
  check fails with a syntax error exactly when the scanner rejects the body
  (\<open>parse_body_syntax_error_iff\<close>), the scanner's messages for blank input and for data
  after a complete value (\<open>check_valid_blank\<close>, \<open>check_valid_trailing\<close>), the scanner's
  invariant (\<open>check_valid_wf\<close>), that each reader consumes input and the parser's fuel
  is enough, that unescaping inverts escaping, that \<open>Get\<close> returns the first value, that
  decoding a map stores the last duplicate, and that a struct whose fields are all
  unexported is left at its zero value.

  \<^bold>\<open>Fuel.\<close> \<open>json_parse s\<close> runs the parser with fuel \<open>Suc (length s)\<close>: every nested call
  is on a strictly shorter input (\<open>parse_consumes_all\<close>), so this is enough, and
  \<open>parse_value_fuel_enough\<close> shows that any larger fuel gives the same result; a
  \<open>None\<close> from \<open>json_parse\<close> is therefore a syntax error, never exhausted fuel. The
  scanner needs no fuel: \<open>scan_run\<close> is structural recursion on the input, one step per
  byte, like the loop of \<open>checkValid\<close>. The
  string scanner and the query splitter are \<open>function\<close>s terminating on the length of
  their input.

  \<^bold>\<open>Not modelled.\<close> The client library's own tracking logic (only its interface; every
  handler property holds for all implementations, and each \<open>Track\<close> call is one atomic
  step of the concurrent server: a client that is itself not linearizable is outside the
  model); the middleware that binds the client into the request context (the binding is
  part of the request); the writing of status and body to the \<open>ResponseWriter\<close>
  (a response is the pair rendered); log-level filtering and the logger's output format;
  the byte offset a \<open>SyntaxError\<close> carries besides its message (\<open>Error()\<close> does not
  print it); \<open>float64\<close> rounding of numbers, repair of invalid UTF-8, and the nesting
  limit of 10000 levels the scanner has since Go 1.15 (a deeper body would be refused
  there and accepted here); the
  change of Go 1.17 that stopped splitting queries at \<open>;\<close>. The helpers
  \<open>parseContext\<close>, \<open>ParseRequestBody\<close> and \<open>RenderError\<close> are not under
  \<^verbatim>\<open>src/\<close> and are modelled from the specification's contracts, which fix only their
  outcomes. Two choices of the model go beyond them: \<open>ParseRequestBody\<close> hands the whole
  body, empty or not, to \<open>json.Unmarshal\<close> and returns its error unchanged without
  logging it (\<open>parse_request_body\<close>). A helper that wrapped the error would change the
  text of the 400 body in C5 and C13 (not its status, nor any other property), and one
  that logged it would add a log line to the 400 outcomes counted in C12.
\<close>

section \<open>The contract of TrackEvent\<close>

text \<open>How the contract classifies a request, from what the request holds rather than from
  the handler's steps: no client or no request context; a body that is not a JSON object
  or \<open>null\<close>; no non-empty \<open>eventKey\<close>; or an event key to track.\<close>

datatype request_class = NoContext | BadBody | NoEventKey | TrackKey string

definition classify_request :: "('h, 'x) request \<Rightarrow> request_class" where
  "classify_request r =
    (if ctx_client r = None \<or> ctx_optly r = None then NoContext
     else if (case json_parse (req_body r) of Some (JObj _) \<Rightarrow> False | Some JNull \<Rightarrow> False | _ \<Rightarrow> True)
     then BadBody
     else (let k = values_get (url_query (req_raw_query r)) ''eventKey'' in
           if k = [] then NoEventKey else TrackKey k))"

text \<open>The user context every call carries (the zero value of \<open>trackBody\<close>, see C2).\<close>

definition empty_user_context :: user_context where
  "empty_user_context = \<lparr>uc_id = [], uc_attributes = None\<rparr>"

text \<open>The abstract machine: one request moves the client library's state by at most one
  \<open>Track\<close> call and yields a status, 500 and 400 for the three refusals, 404 when
  \<open>Track\<close> fails and 204 when it succeeds.\<close>

definition spec_run :: "('h, 's) track_fn \<Rightarrow> ('h, 'x) request \<Rightarrow> 's \<Rightarrow> nat \<times> 's" where
  "spec_run tr r s =
    (case classify_request r of
       NoContext \<Rightarrow> (500, s)
     | BadBody \<Rightarrow> (400, s)
     | NoEventKey \<Rightarrow> (400, s)
     | TrackKey k \<Rightarrow>
         (case tr (the (ctx_client r)) k empty_user_context None s of
            (None, s') \<Rightarrow> (204, s')
          | (Some _, s') \<Rightarrow> (404, s')))"

fun spec_serve :: "('h, 's) track_fn \<Rightarrow> ('h, 'x) request list \<Rightarrow> 's \<Rightarrow> nat list \<times> 's" where
  "spec_serve tr [] s = ([], s)"
| "spec_serve tr (r # rs) s =
     (let (st, s1) = spec_run tr r s; (sts, s2) = spec_serve tr rs s1 in (st # sts, s2))"

text \<open>The Track calls the contract makes for a sequence of requests.\<close>

definition spec_calls :: "('h, 'x) request list \<Rightarrow> (string \<times> user_context \<times> json go_map) list" where
  "spec_calls rs =
    concat (map (\<lambda>r. case classify_request r of TrackKey k \<Rightarrow> [(k, empty_user_context, None)] | _ \<Rightarrow> []) rs)"

section \<open>Scenario fixtures\<close>

text \<open>The request of the specification's scenarios: the body
  \<open>{"userID":"u1","userAttributes":{},"eventTags":{"revenue":10}}\<close>, a bound client and
  context, and the given raw query.\<close>

definition spec_body :: string where
  \<open>spec_body = ''{"userID":"u1","userAttributes":{},"eventTags":{"revenue":10}}''\<close>

definition spec_request :: "string \<Rightarrow> (unit, unit) request" where
  "spec_request q = \<lparr>req_raw_query = q, req_body = spec_body, ctx_client = Some (), ctx_optly = Some ()\<rparr>"

section \<open>One run against the contract\<close>

lemma parse_context_Inl:
  "(\<exists>e. parse_context r = Inl e) \<longleftrightarrow> ctx_client r = None \<or> ctx_optly r = None"
  by (auto simp: parse_context_def split: option.split)

lemma classify_called:
  "parse_context r = Inr (h, x) \<Longrightarrow> parse_request_body decode_trackBody r = Inr b \<Longrightarrow>
   values_get (url_query (req_raw_query r)) ''eventKey'' = k \<Longrightarrow> k \<noteq> [] \<Longrightarrow>
   classify_request r = TrackKey k \<and> ctx_client r = Some h \<and> b = trackBody_zero"
  by (auto simp: classify_request_def parse_context_Inr parse_body_cases Let_def
      split: option.splits json.splits)

lemma classify_refused:
  "parse_context r = Inl e \<Longrightarrow> classify_request r = NoContext"
  "parse_context r = Inr hx \<Longrightarrow> parse_request_body decode_trackBody r = Inl e \<Longrightarrow>
     classify_request r = BadBody"
  "parse_context r = Inr hx \<Longrightarrow> parse_request_body decode_trackBody r = Inr b \<Longrightarrow>
     values_get (url_query (req_raw_query r)) ''eventKey'' = [] \<Longrightarrow> classify_request r = NoEventKey"
  by (auto simp: classify_request_def parse_context_def parse_body_cases Let_def
      split: option.splits json.splits sum.splits)

lemma zero_body_call:
  "track_user_context trackBody_zero = empty_user_context" "eventTags trackBody_zero = None"
  by (simp_all add: track_user_context_def trackBody_zero_def empty_user_context_def)

text \<open>Refinement, one step: a run answers with the status of the abstract machine and
  leaves the client library in its state.\<close>

lemma track_event_refines_run:
  "map fst (responses (trace (track_event tr r w))) =
     map fst (responses (trace w)) @ [fst (spec_run tr r (sdk w))] \<and>
   sdk (track_event tr r w) = snd (spec_run tr r (sdk w))"
proof (induction rule: track_event_split)
  case (called h x b k res s')
  from classify_called [OF called(1-4)] called(5)
  have "spec_run tr r (sdk w) = (if res = None then 204 else 404, s')"
    by (simp add: spec_run_def zero_body_call split: option.split)
  then show ?case by (simp add: handler_defs split: option.split)
qed (simp_all add: classify_refused spec_run_def handler_defs)

lemma track_event_calls_class:
  "track_calls (trace (track_event tr r w)) = track_calls (trace w) @
     (case classify_request r of TrackKey k \<Rightarrow> [(k, empty_user_context, None)] | _ \<Rightarrow> [])"
proof (induction rule: track_event_split)
  case (called h x b k res s')
  from classify_called [OF called(1-4)] show ?case
    by (simp add: zero_body_call split: option.split)
qed (simp_all add: classify_refused)

lemma spec_request_body:
  "parse_request_body decode_trackBody (spec_request q) = Inr trackBody_zero"
  by (simp add: parse_body_cases spec_request_def spec_body_def scan_defs)

lemma spec_request_sel [simp]:
  "ctx_client (spec_request q) = Some ()" "ctx_optly (spec_request q) = Some ()"
  "req_raw_query (spec_request q) = q"
  by (simp_all add: spec_request_def)

lemma key_purchase: "values_get (url_query ''eventKey=purchase'') ''eventKey'' = ''purchase''"
  by (simp add: values_get_def url_query_def parse_query_def split_key_value_def
      is_query_sep_def values_add_def)

lemma key_signup: "values_get (url_query ''eventKey=signup'') ''eventKey'' = ''signup''"
  by (simp add: values_get_def url_query_def parse_query_def split_key_value_def
      is_query_sep_def values_add_def)

lemma spec_request_validate:
  "values_get (url_query q) ''eventKey'' = k \<Longrightarrow> k \<noteq> [] \<Longrightarrow>
   track_validate (spec_request q) = Inr ((), k, trackBody_zero)"
  by (simp add: track_validate_def parse_context_def spec_request_body)

section \<open>Properties of serving requests\<close>

text \<open>
  C9. Refinement: serving any sequence of requests with any client answers them with the
  statuses of the abstract machine \<open>spec_serve\<close>, in order, and leaves the client
  library in the machine's final state.
\<close>

theorem serve_refines_spec:
  "map fst (responses (trace (serve tr rs w))) =
     map fst (responses (trace w)) @ fst (spec_serve tr rs (sdk w)) \<and>
   sdk (serve tr rs w) = snd (spec_serve tr rs (sdk w))"
proof (induction rs arbitrary: w)
  case Nil
  show ?case by (simp add: serve_def)
next
  case (Cons r rs)
  obtain st s1 where run: "spec_run tr r (sdk w) = (st, s1)" by fastforce
  from track_event_refines_run [of tr r w] run
  have "map fst (responses (trace (track_event tr r w))) = map fst (responses (trace w)) @ [st]"
    and "sdk (track_event tr r w) = s1" by simp_all
  with Cons.IH [of "track_event tr r w"] run show ?case
    by (simp add: serve_Cons split: prod.split)
qed

text \<open>
  C10. Serving a sequence of requests calls \<open>Track\<close> once for each request the contract
  classifies as an event to track, in the order of the requests and every time it
  arrives (two identical requests track twice), and never otherwise.
\<close>

theorem serve_track_calls:
  "track_calls (trace (serve tr rs w)) = track_calls (trace w) @ spec_calls rs"
proof (induction rs arbitrary: w)
  case Nil
  show ?case by (simp add: serve_def spec_calls_def)
next
  case (Cons r rs)
  show ?case
    by (simp add: serve_Cons Cons.IH track_event_calls_class spec_calls_def)
qed

text \<open>
  C14. Round trip through the query string: when a client encodes its parameters with
  \<open>url.QueryEscape\<close> and joins them with \<open>&\<close>, \<open>Track\<close> is called with exactly the first
  \<open>eventKey\<close> value it encoded, whatever bytes it holds (spaces, \<open>&\<close>, \<open>=\<close>, \<open>%\<close>).
\<close>

theorem track_event_key_from_encoded_query:
  assumes "req_raw_query r = query_join ps" and "values_of ''eventKey'' ps = k # ks" and "k \<noteq> []"
    and "ctx_client r = Some h" and "ctx_optly r = Some x" and "json_parse (req_body r) = Some (JObj kvs)"
  shows "track_calls (track_effects tr r s) = [(k, empty_user_context, None)]"
proof -
  from assms(1,2) have "values_get (url_query (req_raw_query r)) ''eventKey'' = k"
    by (simp add: values_get_join)
  with assms(3-6) have "classify_request r = TrackKey k"
    by (simp add: classify_request_def)
  then show ?thesis by (simp add: track_effects_def track_event_calls_class)
qed

theorem track_event_key_from_encoded_query_witness:
  "let r = \<lparr>req_raw_query = query_join [(''eventKey'', ''sign up&x=1%''), (''eventKey'', ''second'')],
            req_body = ''{}'', ctx_client = Some (), ctx_optly = Some ()\<rparr>
   in req_raw_query r = query_join [(''eventKey'', ''sign up&x=1%''), (''eventKey'', ''second'')] \<and>
      values_of ''eventKey'' [(''eventKey'', ''sign up&x=1%''), (''eventKey'', ''second'')] =
        [''sign up&x=1%'', ''second''] \<and>
      json_parse (req_body r) = Some (JObj []) \<and>
      track_calls (track_effects queue_track r \<lparr>eq_known = [], eq_events = []\<rparr>) =
        [(''sign up&x=1%'', empty_user_context, None)]"
proof -
  have body: "json_parse ''{}'' = Some (JObj [])" by (simp add: scan_defs)
  show ?thesis
    using track_event_key_from_encoded_query [where
        r = "\<lparr>req_raw_query = query_join [(''eventKey'', ''sign up&x=1%''), (''eventKey'', ''second'')],
              req_body = ''{}'', ctx_client = Some (), ctx_optly = Some ()\<rparr>"
        and ps = "[(''eventKey'', ''sign up&x=1%''), (''eventKey'', ''second'')]"
        and k = "''sign up&x=1%''" and ks = "[''second'']" and h = "()" and x = "()" and kvs = "[]"
        and tr = queue_track and s = "\<lparr>eq_known = [], eq_events = []\<rparr>"]
    by (simp add: body Let_def)
qed

text \<open>
  C15. An \<open>eventKey\<close> value with a malformed percent escape counts as absent:
  \<open>url.ParseQuery\<close> drops the pair and \<open>URL.Query()\<close> drops the error, so a request that
  is otherwise accepted is answered 400 with the missing-parameter message, and
  \<open>Track\<close> is not called.
\<close>

theorem track_event_bad_escape_key:
  assumes "req_raw_query r = ''eventKey='' @ v" and "\<forall>c \<in> set v. \<not> is_query_sep c"
    and "query_unescape v = Inl e"
    and "ctx_client r = Some h" and "ctx_optly r = Some x"
    and "parse_request_body decode_trackBody r = Inr b"
  shows "track_effects tr r s =
    [Rendered 400 (Some (JObj [(''error'', JStr ''missing required path parameter: eventKey'')]))]"
proof -
  have "query_segments (''eventKey='' @ v) = [''eventKey='' @ v]"
    using assms(2) by (intro query_segments_single) (simp_all add: is_query_sep_def)
  moreover have "split_key_value (''eventKey='' @ v) = (''eventKey'', v)"
    by (simp add: split_key_value_def)
  ultimately have "values_get (url_query (req_raw_query r)) ''eventKey'' = []"
    using assms(1,3) by (simp add: values_get_first)
  moreover from assms(4,5) have "parse_context r = Inr (h, x)" by (simp add: parse_context_Inr)
  ultimately show ?thesis
    using assms(6) by (simp add: track_effects_def track_event_key_empty handler_defs
        missing_event_key_error_def)
qed

theorem track_event_bad_escape_key_witness:
  "query_unescape ''%zz'' = Inl (UrlEscapeError ''%zz'') \<and>
   track_effects queue_track (spec_request ''eventKey=%zz'') \<lparr>eq_known = [], eq_events = []\<rparr> =
    [Rendered 400 (Some (JObj [(''error'', JStr ''missing required path parameter: eventKey'')]))]"
proof -
  have esc: "query_unescape ''%zz'' = Inl (UrlEscapeError ''%zz'')" by (simp add: hex_val_def)
  show ?thesis
    using track_event_bad_escape_key [where r = "spec_request ''eventKey=%zz''" and v = "''%zz''"
        and e = "UrlEscapeError ''%zz''" and h = "()" and x = "()" and b = trackBody_zero
        and tr = queue_track and s = "\<lparr>eq_known = [], eq_events = []\<rparr>"]
    by (simp add: esc spec_request_body is_query_sep_def hex_val_def)
qed

section \<open>The concurrent server on the specification's requests\<close>

text \<open>Two requests in flight, \<open>purchase\<close> (known to the client) and \<open>signup\<close> (unknown),
  interleaved so that \<open>signup\<close> calls \<open>Track\<close> first although \<open>purchase\<close> was validated
  first: the schedule 0, 1, 1, 0, 0, 1.\<close>

lemma concurrent_run:
  "run_schedule queue_track
     (server_init [spec_request ''eventKey=purchase'', spec_request ''eventKey=signup'']
        \<lparr>eq_known = [''purchase''], eq_events = []\<rparr>) [0, 1, 1, 0, 0, 1] =
   Some (the (run_schedule queue_track
     (server_init [spec_request ''eventKey=purchase'', spec_request ''eventKey=signup'']
        \<lparr>eq_known = [''purchase''], eq_events = []\<rparr>) [0, 1, 1, 0, 0, 1]))"
  by (simp add: thread_step_def server_init_def spec_request_validate key_purchase key_signup
      track_call_def queue_track_def Let_def)

lemma concurrent_run_final:
  "server_final (the (run_schedule queue_track
     (server_init [spec_request ''eventKey=purchase'', spec_request ''eventKey=signup'']
        \<lparr>eq_known = [''purchase''], eq_events = []\<rparr>) [0, 1, 1, 0, 0, 1]))"
  by (simp add: thread_step_def server_init_def spec_request_validate key_purchase key_signup
      track_call_def queue_track_def server_final_def Let_def)

theorem server_serializable_witness:
  "let rs = [spec_request ''eventKey=purchase'', spec_request ''eventKey=signup''];
       q = \<lparr>eq_known = [''purchase''], eq_events = []\<rparr>;
       c = the (run_schedule queue_track (server_init rs q) [0, 1, 1, 0, 0, 1])
   in (server_step queue_track)\<^sup>*\<^sup>* (server_init rs q) c \<and> server_final c \<and>
      (\<exists>ord. distinct ord \<and> set ord = {..<length rs} \<and>
         serve queue_track (map ((!) rs) ord) \<lparr>sdk = q, trace = []\<rparr> =
           \<lparr>sdk = sv_sdk c, trace = concat (map (\<lambda>i. th_out (sv_threads c ! i)) ord)\<rparr>)"
  unfolding Let_def
  using server_serializable [OF run_schedule_reaches [OF concurrent_run] concurrent_run_final]
    run_schedule_reaches [OF concurrent_run] concurrent_run_final
  by blast

end
